theory Spec2Isabelle
  imports Main "HOL-Library.Multiset"
begin

section \<open>JavaScript strings\<close>

text \<open>
  The editor component (\<open>src/unnamed/part_000\<close>: the functions \<open>findWordBoundaries\<close>,
  \<open>handleAcceptSuggestion\<close> and \<open>handleAcceptAllSuggestions\<close>), the hook
  \<open>useGrammarCheck.ts\<close> (the processing of the reply inside \<open>checkText\<close>) and the
  check-text function that the hook calls (\<open>src/unnamed/part_003\<close>: the validation of
  what the language model returned) are embedded as functions on strings.

  A JavaScript string is a sequence of 16-bit code units. The embedding covers texts whose
  code units are below 256, so a text is a \<open>string\<close> (a list of \<open>char\<close>) read as Latin-1.
  Offsets are \<open>int\<close>, since the program compares them with 0 and a raw suggestion may carry
  a negative one; indices into a string that the program itself computed are \<open>nat\<close>.
\<close>

definition isWordChar :: "char \<Rightarrow> bool" where
  \<comment> \<open>The word characters of \<open>\b\<close> without the unicode flag: \<open>[A-Za-z0-9_]\<close>.\<close>
  "isWordChar c =
     (let n = (of_char c :: nat)
      in (48 \<le> n \<and> n \<le> 57) \<or> (65 \<le> n \<and> n \<le> 90) \<or> n = 95 \<or> (97 \<le> n \<and> n \<le> 122))"

definition isWhiteSpace :: "char \<Rightarrow> bool" where
  \<comment> \<open>What \<open>String.prototype.trim\<close> strips, below 256: TAB, LF, VT, FF, CR, SP, NBSP.\<close>
  "isWhiteSpace c = (let n = (of_char c :: nat) in (9 \<le> n \<and> n \<le> 13) \<or> n = 32 \<or> n = 160)"

definition toLowerCase_char :: "char \<Rightarrow> char" where
  \<comment> \<open>\<open>toLowerCase\<close> on one code unit below 256: A-Z and U+00C0..U+00DE without U+00D7.\<close>
  "toLowerCase_char c =
     (let n = (of_char c :: nat)
      in if (65 \<le> n \<and> n \<le> 90) \<or> (192 \<le> n \<and> n \<le> 222 \<and> n \<noteq> 215) then char_of (n + 32) else c)"

definition toLowerCase :: "string \<Rightarrow> string" where
  "toLowerCase s = map toLowerCase_char s"

definition trim :: "string \<Rightarrow> string" where
  "trim s = rev (dropWhile isWhiteSpace (rev (dropWhile isWhiteSpace s)))"

definition clampIndex :: "string \<Rightarrow> int \<Rightarrow> nat" where
  \<comment> \<open>\<open>min(max(i, 0), len)\<close>, as \<open>substring\<close> does with each argument.\<close>
  "clampIndex s i = nat (min (max i 0) (int (length s)))"

definition substring :: "string \<Rightarrow> int \<Rightarrow> int \<Rightarrow> string" where
  \<comment> \<open>\<open>s.substring(a, b)\<close>: both arguments clamped, then swapped when \<open>a > b\<close>.\<close>
  "substring s a b =
     (let finalStart = clampIndex s a; finalEnd = clampIndex s b;
          from = min finalStart finalEnd; to = max finalStart finalEnd
      in take (to - from) (drop from s))"

definition substring_from :: "string \<Rightarrow> int \<Rightarrow> string" where
  \<comment> \<open>\<open>s.substring(a)\<close>: the end defaults to the length.\<close>
  "substring_from s a = drop (clampIndex s a) s"

fun decimal :: "nat \<Rightarrow> string" where
  \<comment> \<open>A number inside a template literal.\<close>
  "decimal n = (if n < 10 then [char_of (48 + n)] else decimal (n div 10) @ [char_of (48 + n mod 10)])"

declare decimal.simps [simp del]

section \<open>The regular expression of \<open>findWordBoundaries\<close>\<close>

text \<open>
  \<open>new RegExp(`\\b${searchWord.replace(/[.*+?^${}()|[\]\\]/g, '\\$&')}\\b`, 'gi')\<close>:
  the search word with every syntax character escaped, between two \<open>\b\<close> assertions.
  \<open>escapeRegExp\<close> is the \<open>replace\<close>; \<open>parsePattern\<close> reads the fragment of the pattern
  grammar such a source can be written in (\<open>\b\<close>, an escaped syntax character, any other
  character standing for itself) and is \<open>None\<close> outside it, where the constructor would
  throw a SyntaxError or build a matcher that is not modelled.
\<close>

datatype error = SyntaxError | TypeError

datatype atom = WordBoundary | PatternChar char

definition backslash :: char where
  "backslash = CHR 0x5C"

definition syntaxCharacters :: "char list" where
  "syntaxCharacters = ''.*+?^${}()|[]'' @ [backslash]"

fun escapeRegExp :: "string \<Rightarrow> string" where
  "escapeRegExp [] = []"
| "escapeRegExp (c # cs) =
     (if c \<in> set syntaxCharacters then backslash # c # escapeRegExp cs else c # escapeRegExp cs)"

fun parsePattern :: "string \<Rightarrow> atom list option" where
  "parsePattern [] = Some []"
| "parsePattern [c] =
     (if c \<in> set syntaxCharacters then None else Some [PatternChar c])"
| "parsePattern (c # d # ds) =
     (if c = backslash then
        (if d = CHR ''b'' then map_option ((#) WordBoundary) (parsePattern ds)
         else if d \<in> set syntaxCharacters then map_option ((#) (PatternChar d)) (parsePattern ds)
         else None)
      else if c \<in> set syntaxCharacters then None
      else map_option ((#) (PatternChar c)) (parsePattern (d # ds)))"

definition canonicalize :: "char \<Rightarrow> char" where
  \<comment> \<open>Canonicalize of the \<open>i\<close> flag without the unicode flag: the upper case of the code
     unit when that is one code unit. Below 256: a-z and U+00E0..U+00FE without U+00F7.
     U+00B5 and U+00FF have their upper case above 255, shared with no code unit below
     256: they stand for themselves here.\<close>
  "canonicalize c =
     (let n = (of_char c :: nat)
      in if (97 \<le> n \<and> n \<le> 122) \<or> (224 \<le> n \<and> n \<le> 254 \<and> n \<noteq> 247) then char_of (n - 32) else c)"

definition wordBoundary :: "string \<Rightarrow> nat \<Rightarrow> bool" where
  \<comment> \<open>The assertion \<open>\b\<close> at index \<open>i\<close>: exactly one of the characters at \<open>i - 1\<close> and \<open>i\<close>
     is a word character (an index outside the string is none).\<close>
  "wordBoundary s i =
     ((0 < i \<and> i \<le> length s \<and> isWordChar (s ! (i - 1))) \<noteq> (i < length s \<and> isWordChar (s ! i)))"

fun matchAtoms :: "atom list \<Rightarrow> string \<Rightarrow> nat \<Rightarrow> nat option" where
  \<comment> \<open>The matcher at index \<open>i\<close>: the end index of the match, or failure.\<close>
  "matchAtoms [] s i = Some i"
| "matchAtoms (WordBoundary # r) s i = (if wordBoundary s i then matchAtoms r s i else None)"
| "matchAtoms (PatternChar c # r) s i =
     (if i < length s \<and> canonicalize (s ! i) = canonicalize c then matchAtoms r s (Suc i) else None)"

function regexExec :: "atom list \<Rightarrow> string \<Rightarrow> nat \<Rightarrow> (nat \<times> nat) option" where
  \<comment> \<open>\<open>regex.exec(text)\<close> of a global regular expression whose \<open>lastIndex\<close> is the third
     argument: the first index from there on where the matcher succeeds, with the end of
     the match (the new \<open>lastIndex\<close>); \<open>None\<close> is \<open>null\<close>.\<close>
  "regexExec r s lastIndex =
     (if length s < lastIndex then None
      else case matchAtoms r s lastIndex of
             Some e \<Rightarrow> Some (lastIndex, e)
           | None \<Rightarrow> regexExec r s (Suc lastIndex))"
  by pat_completeness auto
termination
  by (relation "measure (\<lambda>(r, s, lastIndex). Suc (length s) - lastIndex)") auto

declare regexExec.simps [simp del]

section \<open>The data of the editor\<close>

record position =
  start :: int
  end' :: int

record match = position +
  text' :: string

text \<open>
  A value read from a JSON reply, as far as the program looks at it: numbers are
  integers, and an object or an array is a value of its own (\<open>===\<close> compares references,
  and no two values of one reply are the same object). \<open>JUndefined\<close> is a property that
  is not there.
\<close>

datatype jsvalue = JUndefined | JNull | JBoolean bool | JNumber int | JString string | JObject

definition truthy :: "jsvalue \<Rightarrow> bool" where
  "truthy v =
     (case v of
        JUndefined \<Rightarrow> False | JNull \<Rightarrow> False | JBoolean b \<Rightarrow> b
      | JNumber n \<Rightarrow> n \<noteq> 0 | JString s \<Rightarrow> s \<noteq> [] | JObject \<Rightarrow> True)"

definition strictEquals :: "jsvalue \<Rightarrow> jsvalue \<Rightarrow> bool" where
  \<comment> \<open>\<open>a === b\<close>.\<close>
  "strictEquals a b = (a = b \<and> a \<noteq> JObject)"

text \<open>
  A suggestion in the state of the hook. \<open>checkText\<close> stores what it kept of the reply,
  with \<open>original\<close>, \<open>correction\<close> of any type (\<open>stored\<close>); the handlers are modelled on the
  suggestions in which both are strings (\<open>suggestion\<close>), as the \<open>Suggestion\<close> interface
  declares them and as the check-text function replies them. They never read \<open>type\<close> and
  \<open>explanation\<close>.
\<close>

record 'v suggestion_of =
  id' :: string
  type' :: jsvalue
  position :: position
  original :: 'v
  correction :: 'v
  explanation :: jsvalue

type_synonym suggestion = "string suggestion_of"

type_synonym stored = "jsvalue suggestion_of"

definition asSuggestion :: "stored \<Rightarrow> suggestion option" where
  "asSuggestion x =
     (case (original x, correction x) of
        (JString orig, JString corr) \<Rightarrow>
          Some \<lparr>id' = id' x, type' = type' x, position = position x,
                original = orig, correction = corr, explanation = explanation x\<rparr>
      | _ \<Rightarrow> None)"

record editor =
  content :: string
  suggestions :: "suggestion list"

text \<open>
  What a handler tells the user: the toast it raises, with the count it shows or the
  offset at which it asks for the caret (\<open>newPosition\<close>). The state of a handler is the
  text and the list of suggestions; the busy flags, the timers and the record of the last
  analysis are not modelled.
\<close>

datatype feedback =
    NoToast
  | InvalidPosition
  | TextChanged
  | SuggestionApplied int
  | AllApplied nat
  | NoneApplied

section \<open>\<open>findWordBoundaries\<close>\<close>

text \<open>
  The \<open>while ((match = regex.exec(text)) !== null)\<close> loop. \<open>exec\<close> leaves \<open>lastIndex\<close> at
  the end of the match, so an empty match is found again at the same index for ever:
  the loop is a partial function, and \<open>None\<close> is the run that never returns.
\<close>

partial_function (option) execLoop :: "atom list \<Rightarrow> string \<Rightarrow> nat \<Rightarrow> match list \<Rightarrow> match list option" where
  "execLoop regex s lastIndex matches =
     (case regexExec regex s lastIndex of
        None \<Rightarrow> Some matches
      | Some (i, e) \<Rightarrow>
          execLoop regex s e
            (matches @ [\<lparr>start = int i, end' = int e, text' = take (e - i) (drop i s)\<rparr>]))"

declare execLoop.simps [code]

text \<open>
  The runs of the loop that return, as a relation: \<open>matchesFrom regex s lastIndex ms\<close> when
  the calls of \<open>exec\<close> from \<open>lastIndex\<close> on find the matches \<open>ms\<close>, in this order, and
  then \<open>null\<close>. It is used to state what the loop returns.
\<close>

fun matchesFrom :: "atom list \<Rightarrow> string \<Rightarrow> nat \<Rightarrow> match list \<Rightarrow> bool" where
  "matchesFrom regex s lastIndex [] = (regexExec regex s lastIndex = None)"
| "matchesFrom regex s lastIndex (m # ms) =
     (case regexExec regex s lastIndex of
        None \<Rightarrow> False
      | Some (i, e) \<Rightarrow>
          m = \<lparr>start = int i, end' = int e, text' = take (e - i) (drop i s)\<rparr>
          \<and> matchesFrom regex s e ms)"

definition wordRegex :: "string \<Rightarrow> atom list" where
  \<comment> \<open>What \<open>parsePattern\<close> reads from the source built for \<open>searchWord\<close>.\<close>
  "wordRegex searchWord = WordBoundary # map PatternChar searchWord @ [WordBoundary]"

definition findWordBoundaries :: "string \<Rightarrow> string \<Rightarrow> int \<Rightarrow> (error + match list) option" where
  \<comment> \<open>\<open>startSearchPos\<close> and \<open>searchText\<close> are not used by the source either.\<close>
  "findWordBoundaries text word startSearchPos =
     (let searchText = toLowerCase text;
          searchWord = trim (toLowerCase word)
      in case parsePattern ([backslash, CHR ''b''] @ escapeRegExp searchWord @ [backslash, CHR ''b'']) of
           None \<Rightarrow> Some (Inl SyntaxError)
         | Some regex \<Rightarrow> map_option Inr (execLoop regex text 0 []))"

definition andThen :: "(error + 'a) option \<Rightarrow> ('a \<Rightarrow> (error + 'b) option) \<Rightarrow> (error + 'b) option" where
  \<comment> \<open>Sequencing: a run that never returns or throws stops the caller too.\<close>
  "andThen r k = (case r of None \<Rightarrow> None | Some (Inl e) \<Rightarrow> Some (Inl e) | Some (Inr x) \<Rightarrow> k x)"

section \<open>The closest match\<close>

text \<open>
  Both handlers hold the same loop: start from \<open>wordMatches[0]\<close> and replace the candidate
  whenever a match is strictly nearer to \<open>suggestion.position.start\<close>.
\<close>

fun closestLoop :: "int \<Rightarrow> match list \<Rightarrow> match \<times> int \<Rightarrow> match \<times> int" where
  "closestLoop hint [] (closestMatch, minDistance) = (closestMatch, minDistance)"
| "closestLoop hint (m # ms) (closestMatch, minDistance) =
     (let distance = \<bar>start m - hint\<bar>
      in if distance < minDistance then closestLoop hint ms (m, distance)
         else closestLoop hint ms (closestMatch, minDistance))"

definition closestMatch :: "int \<Rightarrow> match \<Rightarrow> match list \<Rightarrow> match" where
  \<comment> \<open>For the non-empty list \<open>m0 # ms\<close>.\<close>
  "closestMatch hint m0 ms = fst (closestLoop hint (m0 # ms) (m0, \<bar>start m0 - hint\<bar>))"

definition nearer :: "int \<Rightarrow> match \<Rightarrow> match \<Rightarrow> bool" where
  \<comment> \<open>The order the loop realises on a list in ascending start order: by distance of the
     start from the hint, the smaller start first among equals.\<close>
  "nearer hint a b =
     (\<bar>start a - hint\<bar> < \<bar>start b - hint\<bar>
      \<or> (\<bar>start a - hint\<bar> = \<bar>start b - hint\<bar> \<and> start a \<le> start b))"

definition replaceSpan :: "string \<Rightarrow> int \<Rightarrow> int \<Rightarrow> string \<Rightarrow> string" where
  \<comment> \<open>\<open>beforeText + suggestion.correction + afterText\<close>, with
     \<open>beforeText = content.substring(0, a)\<close> and \<open>afterText = content.substring(b)\<close>.\<close>
  "replaceSpan s a b replacement = substring s 0 a @ replacement @ substring_from s b"

section \<open>\<open>handleAcceptSuggestion\<close>\<close>

definition reconcile :: "string \<Rightarrow> suggestion \<Rightarrow> (error + position option) option" where
  \<comment> \<open>Lines 350 to 391: \<open>correctedPosition\<close> when \<open>foundMatch\<close>, else \<open>None\<close>.\<close>
  "reconcile content' s =
     (let actualText = substring content' (start (position s)) (end' (position s))
      in if actualText = original s then Some (Inr (Some (position s)))
         else if trim (toLowerCase actualText) = trim (toLowerCase (original s))
           then Some (Inr (Some (position s)))
         else andThen (findWordBoundaries content' (original s) 0) (\<lambda>wordMatches.
           case wordMatches of
             [] \<Rightarrow> Some (Inr None)
           | m0 # ms \<Rightarrow>
               (let c = closestMatch (start (position s)) m0 ms
                in Some (Inr (Some ((position s)\<lparr>start := start c, end' := end' c\<rparr>))))))"

definition handleAcceptSuggestion :: "editor \<Rightarrow> suggestion \<Rightarrow> (error + feedback \<times> editor) option" where
  "handleAcceptSuggestion ed s =
     (if start (position s) < 0 \<or> end' (position s) > int (length (content ed))
         \<or> start (position s) \<ge> end' (position s)
      then Some (Inr (InvalidPosition, ed))
      else andThen (reconcile (content ed) s) (\<lambda>found.
        case found of
          None \<Rightarrow> Some (Inr (TextChanged, ed))
        | Some correctedPosition \<Rightarrow>
            (let newContent = replaceSpan (content ed) (start correctedPosition) (end' correctedPosition)
                                (correction s);
                 newPosition = start correctedPosition + int (length (correction s))
             in Some (Inr (SuggestionApplied newPosition,
                  ed\<lparr>content := newContent,
                     suggestions := filter (\<lambda>x. id' x \<noteq> id' s) (suggestions ed)\<rparr>)))))"

section \<open>\<open>handleAcceptAllSuggestions\<close>\<close>

definition sortedSuggestions :: "suggestion list \<Rightarrow> suggestion list" where
  \<comment> \<open>\<open>[...suggestions].sort((a, b) => b.position.start - a.position.start)\<close>: the stable
     sort by descending start.\<close>
  "sortedSuggestions xs = sort_key (\<lambda>x. - start (position x)) xs"

fun applyEach :: "suggestion list \<Rightarrow> string \<times> nat \<Rightarrow> (error + string \<times> nat) option" where
  \<comment> \<open>The \<open>forEach\<close> over the sorted suggestions, on \<open>(newContent, appliedCount)\<close>.\<close>
  "applyEach [] st = Some (Inr st)"
| "applyEach (s # ss) (newContent, appliedCount) =
     andThen (findWordBoundaries newContent (original s) 0) (\<lambda>wordMatches.
       case wordMatches of
         [] \<Rightarrow> applyEach ss (newContent, appliedCount)
       | m0 # ms \<Rightarrow>
           (let c = closestMatch (start (position s)) m0 ms
            in applyEach ss (replaceSpan newContent (start c) (end' c) (correction s), Suc appliedCount)))"

definition handleAcceptAllSuggestions :: "editor \<Rightarrow> (error + feedback \<times> editor) option" where
  "handleAcceptAllSuggestions ed =
     (if suggestions ed = [] then Some (Inr (NoToast, ed))
      else andThen (applyEach (sortedSuggestions (suggestions ed)) (content ed, 0))
        (\<lambda>(newContent, appliedCount).
           if appliedCount > 0
           then Some (Inr (AllApplied appliedCount, ed\<lparr>content := newContent, suggestions := []\<rparr>))
           else Some (Inr (NoneApplied, ed))))"

section \<open>The raw suggestions\<close>

text \<open>
  What the language model returned, parsed, is an array of anything. An element is
  \<open>null\<close>, a primitive value, or an object, of which the fields that the program reads
  are kept: \<open>position\<close> is \<open>None\<close> unless it is an object, and its \<open>start\<close> and \<open>end\<close> are
  \<open>None\<close> unless they are numbers.
\<close>

record raw_position =
  raw_start :: "int option"
  raw_end :: "int option"

record raw_suggestion =
  raw_type :: jsvalue
  raw_position :: "raw_position option"
  raw_original :: jsvalue
  raw_correction :: jsvalue
  raw_explanation :: jsvalue

datatype raw = RawNull | RawPrimitive | RawObject raw_suggestion

section \<open>The check-text function (\<open>src/unnamed/part_003\<close>)\<close>

fun indexOfFrom :: "string \<Rightarrow> string \<Rightarrow> nat \<Rightarrow> nat option" where
  "indexOfFrom [] w i = (if w = [] then Some i else None)"
| "indexOfFrom (c # s) w i =
     (if take (length w) (c # s) = w then Some i else indexOfFrom s w (Suc i))"

definition indexOf :: "string \<Rightarrow> string \<Rightarrow> nat option" where
  \<comment> \<open>\<open>s.indexOf(w)\<close>; \<open>None\<close> is \<open>-1\<close>.\<close>
  "indexOf s w = indexOfFrom s w 0"

definition validateSuggestion :: "string \<Rightarrow> raw \<Rightarrow> error + raw_suggestion option" where
  \<comment> \<open>The callback of the first \<open>filter\<close> (lines 166 to 212): \<open>Inr None\<close> is \<open>false\<close>,
     \<open>Inr (Some x)\<close> is \<open>true\<close> with the suggestion as the callback left it (it may have
     moved the position), \<open>Inl\<close> is the exception of reading a property of \<open>null\<close> or of
     calling \<open>toLowerCase\<close> on a value that is not a string.\<close>
  "validateSuggestion text r =
     (case r of
        RawNull \<Rightarrow> Inl TypeError
      | RawPrimitive \<Rightarrow> Inr None
      | RawObject x \<Rightarrow>
          (case raw_position x of
             None \<Rightarrow> Inr None
           | Some p \<Rightarrow>
               (case (raw_start p, raw_end p) of
                  (Some a, Some b) \<Rightarrow>
                    if \<not> truthy (raw_type x) \<or> \<not> truthy (raw_original x)
                       \<or> \<not> truthy (raw_correction x) \<or> \<not> truthy (raw_explanation x)
                    then Inr None
                    else if a < 0 \<or> b > int (length text) \<or> a \<ge> b then Inr None
                    else
                      (case raw_original x of
                         JString orig \<Rightarrow>
                           (let actualText = substring text a b;
                                originalLower = trim (toLowerCase orig);
                                actualLower = trim (toLowerCase actualText);
                                found =
                                  (if actualLower \<noteq> originalLower
                                   then (case indexOf (toLowerCase text) originalLower of
                                           Some index \<Rightarrow>
                                             Some (x\<lparr>raw_position :=
                                               Some \<lparr>raw_start = Some (int index),
                                                     raw_end = Some (int index + int (length originalLower))\<rparr>\<rparr>)
                                         | None \<Rightarrow> None)
                                   else Some x)
                            in case found of
                                 None \<Rightarrow> Inr None
                               | Some x' \<Rightarrow>
                                   (case raw_correction x of
                                      JString corr \<Rightarrow>
                                        if trim (toLowerCase orig) = trim (toLowerCase corr)
                                        then Inr None else Inr (Some x')
                                    | _ \<Rightarrow> Inl TypeError))
                       | _ \<Rightarrow> Inl TypeError)
                | _ \<Rightarrow> Inr None)))"

fun validateAll :: "string \<Rightarrow> raw list \<Rightarrow> error + raw_suggestion list" where
  \<comment> \<open>The first \<open>filter\<close>: an exception in a callback ends it.\<close>
  "validateAll text [] = Inr []"
| "validateAll text (r # rs) =
     (case validateSuggestion text r of
        Inl e \<Rightarrow> Inl e
      | Inr k \<Rightarrow>
          (case validateAll text rs of
             Inl e \<Rightarrow> Inl e
           | Inr ks \<Rightarrow> Inr (case k of None \<Rightarrow> ks | Some x \<Rightarrow> x # ks)))"

definition startOf :: "raw_suggestion \<Rightarrow> int" where
  \<comment> \<open>\<open>position.start\<close> of a suggestion that passed the first filter.\<close>
  "startOf x = (case raw_position x of
                  Some p \<Rightarrow> (case raw_start p of Some a \<Rightarrow> a | None \<Rightarrow> 0)
                | None \<Rightarrow> 0)"

definition samePosition :: "raw_suggestion \<Rightarrow> raw_suggestion \<Rightarrow> bool" where
  "samePosition prev x =
     (case (raw_position prev, raw_position x) of
        (Some p, Some q) \<Rightarrow> raw_start p = raw_start q \<and> raw_end p = raw_end q
      | _ \<Rightarrow> False)"

fun removeDuplicatePositions :: "raw_suggestion list \<Rightarrow> raw_suggestion list \<Rightarrow> raw_suggestion list" where
  \<comment> \<open>The second \<open>filter\<close>; the first argument is \<open>array.slice(0, index)\<close>.\<close>
  "removeDuplicatePositions earlier [] = []"
| "removeDuplicatePositions earlier (x # xs) =
     (if list_ex (\<lambda>prev. samePosition prev x) earlier
      then removeDuplicatePositions (earlier @ [x]) xs
      else x # removeDuplicatePositions (earlier @ [x]) xs)"

definition validatedSuggestions :: "string \<Rightarrow> raw list \<Rightarrow> raw_suggestion list" where
  \<comment> \<open>Lines 165 to 229: \<open>filter\<close>, \<open>filter\<close>, \<open>sort\<close> by ascending start (stable); the
     \<open>catch\<close> replies the empty array.\<close>
  "validatedSuggestions text suggestions' =
     (case validateAll text suggestions' of
        Inl e \<Rightarrow> []
      | Inr kept \<Rightarrow> sort_key startOf (removeDuplicatePositions [] kept))"

section \<open>The reply in \<open>checkText\<close> (\<open>useGrammarCheck.ts\<close>)\<close>

definition keeps :: "string \<Rightarrow> raw \<Rightarrow> bool" where
  \<comment> \<open>The predicate of the first \<open>filter\<close> (lines 101 to 113).\<close>
  "keeps text r =
     (case r of
        RawObject x \<Rightarrow>
          (case raw_position x of
             None \<Rightarrow> False
           | Some p \<Rightarrow>
               (case (raw_start p, raw_end p) of
                  (Some a, Some b) \<Rightarrow>
                     a \<ge> 0 \<and> b \<le> int (length text) \<and> a < b
                     \<and> truthy (raw_original x) \<and> truthy (raw_correction x)
                     \<and> truthy (raw_explanation x)
                     \<and> \<not> strictEquals (raw_original x) (raw_correction x)
                | _ \<Rightarrow> False))
      | _ \<Rightarrow> False)"

definition withId :: "string \<Rightarrow> (nat \<Rightarrow> nat) \<Rightarrow> raw \<times> nat \<Rightarrow> stored list" where
  \<comment> \<open>The callback of \<open>map\<close> on an element the filter kept, at its index in the filtered
     array: the id and the clamped position. \<open>now i\<close> is what \<open>Date.now()\<close> returns in
     the call for index \<open>i\<close>. An element the filter cannot have kept gives nothing.\<close>
  "withId text now ri =
     (case ri of
        (RawObject x, index) \<Rightarrow>
          (case raw_position x of
             Some p \<Rightarrow>
               (case (raw_start p, raw_end p) of
                  (Some a, Some b) \<Rightarrow>
                    [\<lparr>id' = ''suggestion-'' @ decimal (now index) @ ''-'' @ decimal index,
                      type' = raw_type x,
                      position = \<lparr>start = max 0 (min a (int (length text))),
                                  end' = max 0 (min b (int (length text)))\<rparr>,
                      original = raw_original x, correction = raw_correction x,
                      explanation = raw_explanation x\<rparr>]
                | _ \<Rightarrow> [])
           | None \<Rightarrow> [])
      | _ \<Rightarrow> [])"

definition sameTriple :: "stored \<Rightarrow> stored \<Rightarrow> bool" where
  "sameTriple prevSuggestion s =
     (start (position prevSuggestion) = start (position s)
      \<and> end' (position prevSuggestion) = end' (position s)
      \<and> strictEquals (original prevSuggestion) (original s))"

fun removeDuplicates :: "stored list \<Rightarrow> stored list \<Rightarrow> stored list" where
  \<comment> \<open>The second \<open>filter\<close>; the first argument is \<open>array.slice(0, index)\<close>.\<close>
  "removeDuplicates earlier [] = []"
| "removeDuplicates earlier (s # ss) =
     (if list_ex (\<lambda>prevSuggestion. sameTriple prevSuggestion s) earlier
      then removeDuplicates (earlier @ [s]) ss
      else s # removeDuplicates (earlier @ [s]) ss)"

definition suggestionsWithIds :: "raw list \<Rightarrow> string \<Rightarrow> (nat \<Rightarrow> nat) \<Rightarrow> stored list" where
  \<comment> \<open>Lines 100 to 131: \<open>filter\<close>, \<open>map\<close>, \<open>filter\<close>, \<open>sort\<close> by ascending start (stable).\<close>
  "suggestionsWithIds suggestionsArray text now =
     (let kept = filter (keeps text) suggestionsArray;
          mapped = concat (map (withId text now) (zip kept [0 ..< length kept]))
      in sort_key (\<lambda>x. start (position x)) (removeDuplicates [] mapped))"

function splitWhiteSpace :: "string \<Rightarrow> string \<Rightarrow> string list" where
  \<comment> \<open>\<open>s.split(/\s+/)\<close>; the first argument is the piece being read, reversed.\<close>
  "splitWhiteSpace piece [] = [rev piece]"
| "splitWhiteSpace piece (c # s) =
     (if isWhiteSpace c then rev piece # splitWhiteSpace [] (dropWhile isWhiteSpace s)
      else splitWhiteSpace (c # piece) s)"
  by pat_completeness auto

termination
  by (relation "measure (\<lambda>(piece, s). length s)")
     (auto simp: less_Suc_eq_le length_dropWhile_le)

definition words :: "string \<Rightarrow> string list" where
  \<comment> \<open>\<open>text.trim().split(/\s+/).filter(word => word.length > 0)\<close>.\<close>
  "words text = filter (\<lambda>word. length word > 0) (splitWhiteSpace [] (trim text))"

definition checkText :: "string \<Rightarrow> raw list \<Rightarrow> (nat \<Rightarrow> nat) \<Rightarrow> stored list" where
  \<comment> \<open>The suggestions that \<open>checkText\<close> stores for a text, when the language model
     returned \<open>modelReply\<close> to the check-text function: nothing for a text of fewer than
     10 characters after trimming or fewer than 3 words (lines 36 to 50), else what it
     keeps of the function's reply. (The function's own guards, lines 17 to 35, let
     every text through that the first guard here does. The editor calls \<open>checkText\<close>
     for a text of more than 20 characters after trimming and at least 5 words.)\<close>
  "checkText text modelReply now =
     (if length (trim text) < 10 then []
      else if length (words text) < 3 then []
      else suggestionsWithIds (map RawObject (validatedSuggestions text modelReply)) text now)"

section \<open>Characters and strings\<close>

lemma canonicalize_toLowerCase_char: "canonicalize (toLowerCase_char c) = canonicalize c"
proof -
  have lt: "(of_char c :: nat) < 256" by simp
  have inj: "char_of (of_char c :: nat) = c" by simp
  show ?thesis
    unfolding canonicalize_def toLowerCase_char_def Let_def
    using lt by (auto simp: of_char_of) 
qed

lemma isWhiteSpace_toLowerCase_char: "isWhiteSpace (toLowerCase_char c) = isWhiteSpace c"
  unfolding isWhiteSpace_def toLowerCase_char_def Let_def
  by (auto simp: of_char_of)

lemma of_char_canonicalize:
  "(of_char (canonicalize c) :: nat) =
     (let n = of_char c in if (97 \<le> n \<and> n \<le> 122) \<or> (224 \<le> n \<and> n \<le> 254 \<and> n \<noteq> 247) then n - 32 else n)"
proof -
  have "(of_char c :: nat) < 256" by simp
  then have "(of_char c - 32 :: nat) < 256" by arith
  then have "(of_char c - 32 :: nat) mod 256 = of_char c - 32" by simp
  then show ?thesis
    by (simp add: canonicalize_def Let_def)
qed

lemma of_char_toLowerCase_char:
  "(of_char (toLowerCase_char c) :: nat) =
     (let n = of_char c in if (65 \<le> n \<and> n \<le> 90) \<or> (192 \<le> n \<and> n \<le> 222 \<and> n \<noteq> 215) then n + 32 else n)"
  by (auto simp: toLowerCase_char_def Let_def)

lemma fold_arith:
  fixes n m :: nat
  defines "L k \<equiv> (97 \<le> k \<and> k \<le> 122) \<or> (224 \<le> k \<and> k \<le> 254 \<and> k \<noteq> 247)"
      and "U k \<equiv> (65 \<le> k \<and> k \<le> 90) \<or> (192 \<le> k \<and> k \<le> 222 \<and> k \<noteq> 215)"
  shows "((if L n then n - 32 else n) = (if L m then m - 32 else m))
     \<longleftrightarrow> ((if U n then n + 32 else n) = (if U m then m + 32 else m))"
proof -
  have dj: "\<And>k. U k \<Longrightarrow> \<not> L k" unfolding U_def L_def by arith
  have Uup: "\<And>k. U k \<Longrightarrow> L (k + 32)" unfolding U_def L_def by arith
  have Ldn: "\<And>k. L k \<Longrightarrow> U (k - 32) \<and> 32 \<le> k" unfolding U_def L_def by arith
  consider (UU) "U n" "U m" | (UL) "U n" "L m" | (UO) "U n" "\<not> U m" "\<not> L m"
    | (LU) "L n" "U m" | (LL) "L n" "L m" | (LO) "L n" "\<not> U m" "\<not> L m"
    | (OU) "\<not> U n" "\<not> L n" "U m" | (OL) "\<not> U n" "\<not> L n" "L m"
    | (OO) "\<not> U n" "\<not> L n" "\<not> U m" "\<not> L m"
    using dj by blast
  then show ?thesis
  proof cases
    case UU
    then show ?thesis using dj by simp
  next
    case UL
    with Ldn [of m] dj [of n] dj [of m] show ?thesis by auto
  next
    case UO
    with Uup [of n] dj [of n] show ?thesis by auto
  next
    case LU
    with Ldn [of n] dj [of m] dj [of n] show ?thesis by auto
  next
    case LL
    with Ldn [of n] Ldn [of m] dj [of m] dj [of n] show ?thesis by auto
  next
    case LO
    with Ldn [of n] dj [of n] show ?thesis by auto
  next
    case OU
    with Uup [of m] dj [of m] show ?thesis by auto
  next
    case OL
    with Ldn [of m] dj [of m] show ?thesis by auto
  next
    case OO
    then show ?thesis by simp
  qed
qed

lemma canonicalize_eq_iff:
  "canonicalize a = canonicalize b \<longleftrightarrow> toLowerCase_char a = toLowerCase_char b"
proof -
  have "canonicalize a = canonicalize b \<longleftrightarrow> (of_char (canonicalize a) :: nat) = of_char (canonicalize b)"
    by simp
  also have "\<dots> \<longleftrightarrow> (of_char (toLowerCase_char a) :: nat) = of_char (toLowerCase_char b)"
    unfolding of_char_canonicalize of_char_toLowerCase_char Let_def by (rule fold_arith)
  also have "\<dots> \<longleftrightarrow> toLowerCase_char a = toLowerCase_char b" by simp
  finally show ?thesis .
qed

lemma toLowerCase_eq_iff:
  "toLowerCase x = toLowerCase y \<longleftrightarrow> map canonicalize x = map canonicalize y"
proof (induction x arbitrary: y)
  case Nil
  then show ?case by (auto simp: toLowerCase_def)
next
  case (Cons a x)
  then show ?case
    by (cases y) (auto simp: toLowerCase_def canonicalize_eq_iff)
qed

lemma canonicalize_toLowerCase: "map canonicalize (toLowerCase w) = map canonicalize w"
  by (simp add: toLowerCase_def canonicalize_toLowerCase_char)

lemma dropWhile_toLowerCase:
  "dropWhile isWhiteSpace (toLowerCase s) = toLowerCase (dropWhile isWhiteSpace s)"
  by (induction s) (auto simp: toLowerCase_def isWhiteSpace_toLowerCase_char)

lemma trim_toLowerCase: "trim (toLowerCase s) = toLowerCase (trim s)"
proof -
  have r: "\<And>x. rev (toLowerCase x) = toLowerCase (rev x)" by (simp add: toLowerCase_def rev_map)
  show ?thesis
    by (simp add: trim_def dropWhile_toLowerCase r)
qed

lemma length_toLowerCase [simp]: "length (toLowerCase s) = length s"
  by (simp add: toLowerCase_def)

lemma substring_slice:
  "0 \<le> a \<Longrightarrow> a \<le> b \<Longrightarrow> b \<le> int (length s) \<Longrightarrow>
   substring s a b = take (nat b - nat a) (drop (nat a) s)"
  by (simp add: substring_def clampIndex_def Let_def min_def max_def)

lemma substring_prefix:
  "0 \<le> a \<Longrightarrow> substring s 0 a = take (nat a) s"
  by (auto simp: substring_def clampIndex_def Let_def min_def max_def)

lemma substring_from_suffix:
  "0 \<le> b \<Longrightarrow> substring_from s b = drop (nat b) s"
  by (auto simp: substring_from_def clampIndex_def min_def max_def)

lemma replaceSpan_slice:
  "0 \<le> a \<Longrightarrow> 0 \<le> b \<Longrightarrow> replaceSpan s a b c = take (nat a) s @ c @ drop (nat b) s"
  by (simp add: replaceSpan_def substring_prefix substring_from_suffix)

section \<open>The pattern and the matcher\<close>

lemma not_syntax_b: "CHR ''b'' \<notin> set syntaxCharacters"
  by (simp add: syntaxCharacters_def backslash_def)

lemma backslash_syntax: "backslash \<in> set syntaxCharacters"
  by (simp add: syntaxCharacters_def)

lemma parsePattern_plain:
  "c \<notin> set syntaxCharacters \<Longrightarrow> parsePattern (c # xs) = map_option ((#) (PatternChar c)) (parsePattern xs)"
  using backslash_syntax by (cases xs) auto

lemma parsePattern_escaped:
  "c \<in> set syntaxCharacters \<Longrightarrow>
   parsePattern (backslash # c # xs) = map_option ((#) (PatternChar c)) (parsePattern xs)"
  using not_syntax_b by auto

lemma parsePattern_escapeRegExp:
  "parsePattern (escapeRegExp w @ rest) = map_option ((@) (map PatternChar w)) (parsePattern rest)"
proof (induction w)
  case Nil
  show ?case by (simp add: option.map_ident)
next
  case (Cons c cs)
  show ?case
  proof (cases "c \<in> set syntaxCharacters")
    case True
    then show ?thesis
      using Cons parsePattern_escaped [OF True, of "escapeRegExp cs @ rest"]
      by (simp add: option.map_comp comp_def)
  next
    case False
    then show ?thesis
      using Cons parsePattern_plain [OF False, of "escapeRegExp cs @ rest"]
      by (simp add: option.map_comp comp_def)
  qed
qed

lemma parsePattern_word:
  "parsePattern ([backslash, CHR ''b''] @ escapeRegExp w @ [backslash, CHR ''b''])
   = Some (WordBoundary # map PatternChar w @ [WordBoundary])"
proof -
  have e: "parsePattern [backslash, CHR ''b''] = Some [WordBoundary]" by simp
  have "parsePattern ([backslash, CHR ''b''] @ escapeRegExp w @ [backslash, CHR ''b''])
        = map_option ((#) WordBoundary) (parsePattern (escapeRegExp w @ [backslash, CHR ''b'']))"
    by simp
  then show ?thesis
    by (simp only: parsePattern_escapeRegExp e) simp
qed

lemma matchAtoms_bounds:
  "i \<le> length s \<Longrightarrow> matchAtoms r s i = Some e \<Longrightarrow> i \<le> e \<and> e \<le> length s"
proof (induction r arbitrary: i)
  case Nil
  then show ?case by simp
next
  case (Cons a r)
  show ?case
  proof (cases a)
    case WordBoundary
    with Cons show ?thesis by (auto split: if_splits)
  next
    case (PatternChar c)
    with Cons.prems have "i < length s" and "matchAtoms r s (Suc i) = Some e"
      by (auto split: if_splits)
    with Cons.IH [of "Suc i"] show ?thesis by auto
  qed
qed

lemma matchAtoms_chars:
  "i \<le> length s \<Longrightarrow>
   matchAtoms (map PatternChar w @ r) s i =
     (if i + length w \<le> length s \<and> map canonicalize (take (length w) (drop i s)) = map canonicalize w
      then matchAtoms r s (i + length w) else None)"
proof (induction w arbitrary: i)
  case Nil
  then show ?case by simp
next
  case (Cons c cs)
  show ?case
  proof (cases "i < length s")
    case True
    then have d: "drop i s = s ! i # drop (Suc i) s"
      by (simp add: Cons_nth_drop_Suc)
    from True have "Suc i \<le> length s" by simp
    from Cons.IH [OF this] True show ?thesis
      by (auto simp: d)
  next
    case False
    then show ?thesis by simp
  qed
qed

lemma matchAtoms_word:
  "i \<le> length s \<Longrightarrow>
   matchAtoms (WordBoundary # map PatternChar w @ [WordBoundary]) s i =
     (if wordBoundary s i \<and> i + length w \<le> length s
         \<and> map canonicalize (take (length w) (drop i s)) = map canonicalize w
         \<and> wordBoundary s (i + length w)
      then Some (i + length w) else None)"
  by (simp add: matchAtoms_chars)

lemma regexExec_SomeD:
  "regexExec r s li = Some (i, e) \<Longrightarrow> li \<le> i \<and> i \<le> length s \<and> matchAtoms r s i = Some e"
proof (induction r s li rule: regexExec.induct)
  case (1 r s lastIndex)
  show ?case
  proof (cases "matchAtoms r s lastIndex")
    case None
    with "1.prems" have le: "\<not> length s < lastIndex" and rec: "regexExec r s (Suc lastIndex) = Some (i, e)"
      by (auto simp: regexExec.simps [of r s lastIndex] split: if_splits)
    from "1.IH" [OF le None rec] show ?thesis by simp
  next
    case (Some e')
    with "1.prems" show ?thesis
      by (auto simp: regexExec.simps [of r s lastIndex] split: if_splits)
  qed
qed

lemma regexExec_first:
  "regexExec r s li = Some (i, e) \<Longrightarrow> li \<le> j \<Longrightarrow> j < i \<Longrightarrow> matchAtoms r s j = None"
proof (induction r s li rule: regexExec.induct)
  case (1 r s lastIndex)
  show ?case
  proof (cases "matchAtoms r s lastIndex")
    case None
    with "1.prems" have le: "\<not> length s < lastIndex" and rec: "regexExec r s (Suc lastIndex) = Some (i, e)"
      by (auto simp: regexExec.simps [of r s lastIndex] split: if_splits)
    show ?thesis
    proof (cases "j = lastIndex")
      case True
      with None show ?thesis by simp
    next
      case False
      with "1.prems" have "Suc lastIndex \<le> j" by simp
      from "1.IH" [OF le None rec this "1.prems"(3)] show ?thesis .
    qed
  next
    case (Some e')
    with "1.prems" show ?thesis
      by (auto simp: regexExec.simps [of r s lastIndex] split: if_splits)
  qed
qed

lemma regexExec_NoneD:
  "regexExec r s li = None \<Longrightarrow> li \<le> j \<Longrightarrow> j \<le> length s \<Longrightarrow> matchAtoms r s j = None"
proof (induction r s li rule: regexExec.induct)
  case (1 r s lastIndex)
  from "1.prems" have le: "\<not> length s < lastIndex" by simp
  with "1.prems" have m: "matchAtoms r s lastIndex = None" and rec: "regexExec r s (Suc lastIndex) = None"
    by (auto simp: regexExec.simps [of r s lastIndex] split: if_splits option.splits)
  show ?case
  proof (cases "j = lastIndex")
    case True
    with m show ?thesis by simp
  next
    case False
    with "1.prems" have "Suc lastIndex \<le> j" by simp
    from "1.IH" [OF le m rec this "1.prems"(3)] show ?thesis .
  qed
qed

lemma regexExec_NoneI:
  "(\<And>j. li \<le> j \<Longrightarrow> j \<le> length s \<Longrightarrow> matchAtoms r s j = None) \<Longrightarrow> regexExec r s li = None"
proof (induction r s li rule: regexExec.induct)
  case (1 r s lastIndex)
  show ?case
  proof (cases "length s < lastIndex")
    case True
    then show ?thesis by (simp add: regexExec.simps [of r s lastIndex])
  next
    case False
    then have m: "matchAtoms r s lastIndex = None" using "1.prems" [of lastIndex] by simp
    have "regexExec r s (Suc lastIndex) = None"
      using "1.IH" [OF False m] "1.prems" by simp
    with False m show ?thesis by (simp add: regexExec.simps [of r s lastIndex])
  qed
qed

lemma regexExec_hit:
  "li \<le> length s \<Longrightarrow> matchAtoms r s li = Some e \<Longrightarrow> regexExec r s li = Some (li, e)"
  by (simp add: regexExec.simps [of r s li])

section \<open>The loop of \<open>findWordBoundaries\<close>\<close>

lemma execLoop_stuck:
  assumes "regexExec r s li = Some (li, li)"
  shows "execLoop r s li acc = None"
proof (rule ccontr)
  assume "execLoop r s li acc \<noteq> None"
  then obtain y where y: "execLoop r s li acc = Some y" by auto
  have "regexExec r s li \<noteq> Some (li, li)"
  proof (rule execLoop.raw_induct
      [where P = "\<lambda>r s li acc y. regexExec r s li \<noteq> Some (li, li)", OF _ y])
    fix loop :: "atom list \<Rightarrow> string \<Rightarrow> nat \<Rightarrow> match list \<Rightarrow> match list option"
    fix regex s lastIndex matches z
    assume IH: "\<And>r s li acc y. loop r s li acc = Some y \<Longrightarrow> regexExec r s li \<noteq> Some (li, li)"
    assume eq: "(case regexExec regex s lastIndex of None \<Rightarrow> Some matches
      | Some (i, e) \<Rightarrow> loop regex s e
           (matches @ [\<lparr>start = int i, end' = int e, text' = take (e - i) (drop i s)\<rparr>])) = Some z"
    show "regexExec regex s lastIndex \<noteq> Some (lastIndex, lastIndex)"
    proof
      assume st: "regexExec regex s lastIndex = Some (lastIndex, lastIndex)"
      with eq have "loop regex s lastIndex
            (matches @ [\<lparr>start = int lastIndex, end' = int lastIndex,
                         text' = take (lastIndex - lastIndex) (drop lastIndex s)\<rparr>]) = Some z"
        by simp
      from IH [OF this] st show False by simp
    qed
  qed
  with assms show False by simp
qed

lemma execLoop_empty_match:
  assumes "regexExec r s li = Some (i, i)"
  shows "execLoop r s li acc = None"
proof -
  from regexExec_SomeD [OF assms] have "i \<le> length s" and "matchAtoms r s i = Some i" by simp_all
  then have "regexExec r s i = Some (i, i)" by (rule regexExec_hit)
  then have "execLoop r s i (acc @ [\<lparr>start = int i, end' = int i, text' = take (i - i) (drop i s)\<rparr>]) = None"
    by (rule execLoop_stuck)
  with assms show ?thesis
    by (subst execLoop.simps) simp
qed


lemma execLoop_matchesFrom:
  "matchesFrom r s li ms \<Longrightarrow> execLoop r s li acc = Some (acc @ ms)"
proof (induction ms arbitrary: li acc)
  case Nil
  then show ?case by (subst execLoop.simps) simp
next
  case (Cons m ms)
  from Cons.prems obtain i e where ex: "regexExec r s li = Some (i, e)"
    and m: "m = \<lparr>start = int i, end' = int e, text' = take (e - i) (drop i s)\<rparr>"
    and rest: "matchesFrom r s e ms"
    by (auto split: option.splits)
  from Cons.IH [OF rest, of "acc @ [m]"] ex m show ?case
    by (subst execLoop.simps) simp
qed

lemma matchesFrom_exists:
  assumes prog: "\<And>i e. i \<le> length s \<Longrightarrow> matchAtoms r s i = Some e \<Longrightarrow> i < e"
  shows "\<exists>ms. matchesFrom r s li ms"
proof (induction "Suc (length s) - li" arbitrary: li rule: less_induct)
  case less
  show ?case
  proof (cases "regexExec r s li")
    case None
    then have "matchesFrom r s li []" by simp
    then show ?thesis ..
  next
    case (Some p)
    obtain i e where p: "p = (i, e)" by (cases p)
    from regexExec_SomeD [OF Some [unfolded p]]
    have li: "li \<le> i" and i: "i \<le> length s" and m: "matchAtoms r s i = Some e" by simp_all
    from prog [OF i m] have ie: "i < e" .
    from matchAtoms_bounds [OF i m] have "e \<le> length s" by simp
    with li ie have "Suc (length s) - e < Suc (length s) - li" by arith
    from less [OF this] obtain ms where "matchesFrom r s e ms" ..
    with Some p
    have "matchesFrom r s li (\<lparr>start = int i, end' = int e, text' = take (e - i) (drop i s)\<rparr> # ms)"
      by simp
    then show ?thesis ..
  qed
qed

lemma findWordBoundaries_eq:
  "findWordBoundaries t w h = map_option Inr (execLoop (wordRegex (trim (toLowerCase w))) t 0 [])"
  unfolding findWordBoundaries_def Let_def parsePattern_word wordRegex_def by simp

lemma matchAtoms_wordRegex:
  "i \<le> length s \<Longrightarrow>
   matchAtoms (wordRegex w) s i =
     (if wordBoundary s i \<and> i + length w \<le> length s
         \<and> map canonicalize (take (length w) (drop i s)) = map canonicalize w
         \<and> wordBoundary s (i + length w)
      then Some (i + length w) else None)"
  unfolding wordRegex_def by (rule matchAtoms_word)

lemma matchesFrom_wordRegex_exists:
  assumes "w \<noteq> []"
  shows "\<exists>ms. matchesFrom (wordRegex w) s li ms"
proof (rule matchesFrom_exists)
  fix i e
  assume "i \<le> length s" and "matchAtoms (wordRegex w) s i = Some e"
  with assms show "i < e"
    by (auto simp: matchAtoms_wordRegex split: if_splits)
qed

lemma execLoop_wordRegex_SomeD:
  assumes "execLoop (wordRegex w) s li acc = Some out"
  shows "\<exists>ms. out = acc @ ms \<and> matchesFrom (wordRegex w) s li ms \<and> (ms \<noteq> [] \<longrightarrow> w \<noteq> [])"
proof (cases "w = []")
  case False
  from matchesFrom_wordRegex_exists [OF False] obtain ms where ms: "matchesFrom (wordRegex w) s li ms" ..
  from execLoop_matchesFrom [OF ms, of acc] assms have "out = acc @ ms" by simp
  with ms False show ?thesis by blast
next
  case True
  show ?thesis
  proof (cases "regexExec (wordRegex w) s li")
    case None
    then have "matchesFrom (wordRegex w) s li []" by simp
    from execLoop_matchesFrom [OF this, of acc] assms show ?thesis
      using None by auto
  next
    case (Some p)
    obtain i e where p: "p = (i, e)" by (cases p)
    from regexExec_SomeD [OF Some [unfolded p]] True have "e = i"
      by (auto simp: matchAtoms_wordRegex split: if_splits)
    with Some p have "execLoop (wordRegex w) s li acc = None"
      by (simp add: execLoop_empty_match)
    with assms show ?thesis by simp
  qed
qed

lemma findWordBoundaries_SomeD:
  assumes "findWordBoundaries t w h = Some res"
  shows "\<exists>ms. res = Inr ms \<and> matchesFrom (wordRegex (trim (toLowerCase w))) t 0 ms
            \<and> (ms \<noteq> [] \<longrightarrow> trim (toLowerCase w) \<noteq> [])"
proof -
  from assms obtain out where out: "execLoop (wordRegex (trim (toLowerCase w))) t 0 [] = Some out"
    and res: "res = Inr out"
    by (auto simp: findWordBoundaries_eq)
  from execLoop_wordRegex_SomeD [OF out] res show ?thesis by auto
qed

lemma findWordBoundaries_total:
  assumes "trim (toLowerCase w) \<noteq> []"
  shows "\<exists>ms. findWordBoundaries t w h = Some (Inr ms)"
proof -
  from matchesFrom_wordRegex_exists [OF assms] obtain ms
    where "matchesFrom (wordRegex (trim (toLowerCase w))) t 0 ms" ..
  from execLoop_matchesFrom [OF this, of "[]"] show ?thesis
    by (simp add: findWordBoundaries_eq)
qed

lemma findWordBoundaries_never_throws: "findWordBoundaries t w h \<noteq> Some (Inl e)"
  by (auto simp: findWordBoundaries_eq)

lemma wordBoundary_exists_iff:
  "(\<exists>j\<le>length s. wordBoundary s j) \<longleftrightarrow> (\<exists>c\<in>set s. isWordChar c)"
proof
  assume "\<exists>j\<le>length s. wordBoundary s j"
  then obtain j where "j \<le> length s" and "wordBoundary s j" by blast
  then have "(0 < j \<and> isWordChar (s ! (j - 1))) \<or> (j < length s \<and> isWordChar (s ! j))"
    by (auto simp: wordBoundary_def)
  then show "\<exists>c\<in>set s. isWordChar c"
  proof
    assume "0 < j \<and> isWordChar (s ! (j - 1))"
    moreover from this \<open>j \<le> length s\<close> have "j - 1 < length s" by arith
    ultimately have "s ! (j - 1) \<in> set s" and "isWordChar (s ! (j - 1))" by simp_all
    then show ?thesis ..
  next
    assume "j < length s \<and> isWordChar (s ! j)"
    then have "s ! j \<in> set s" and "isWordChar (s ! j)" by simp_all
    then show ?thesis ..
  qed
next
  assume "\<exists>c\<in>set s. isWordChar c"
  then have ex: "\<exists>k. k < length s \<and> isWordChar (s ! k)"
    by (auto simp: in_set_conv_nth)
  define k where "k = (LEAST k. k < length s \<and> isWordChar (s ! k))"
  from LeastI_ex [OF ex] have k: "k < length s" "isWordChar (s ! k)" by (simp_all add: k_def)
  have "\<not> (0 < k \<and> isWordChar (s ! (k - 1)))"
  proof
    assume a: "0 < k \<and> isWordChar (s ! (k - 1))"
    with k have "k - 1 < length s \<and> isWordChar (s ! (k - 1))" by simp
    then have "k \<le> k - 1" unfolding k_def by (rule Least_le)
    moreover from a have "0 < k" by simp
    ultimately show False by arith
  qed
  with k have "wordBoundary s k" by (auto simp: wordBoundary_def)
  with k show "\<exists>j\<le>length s. wordBoundary s j" by (intro exI [of _ k]) simp
qed

lemma findWordBoundaries_empty_word:
  assumes "trim (toLowerCase w) = []"
  shows "findWordBoundaries t w h = (if \<exists>c\<in>set t. isWordChar c then None else Some (Inr []))"
proof (cases "\<exists>c\<in>set t. isWordChar c")
  case True
  then obtain j where j: "j \<le> length t" "wordBoundary t j"
    using wordBoundary_exists_iff [of t] by blast
  then have "matchAtoms (wordRegex []) t j = Some j" by (simp add: matchAtoms_wordRegex)
  have "regexExec (wordRegex []) t 0 \<noteq> None"
  proof
    assume "regexExec (wordRegex []) t 0 = None"
    from regexExec_NoneD [OF this, of j] j have "matchAtoms (wordRegex []) t j = None" by simp
    with \<open>matchAtoms (wordRegex []) t j = Some j\<close> show False by simp
  qed
  then obtain i e where ex: "regexExec (wordRegex []) t 0 = Some (i, e)" by auto
  from regexExec_SomeD [OF ex] have "e = i"
    by (auto simp: matchAtoms_wordRegex split: if_splits)
  with ex have "execLoop (wordRegex []) t 0 [] = None" by (simp add: execLoop_empty_match)
  with True assms show ?thesis by (simp add: findWordBoundaries_eq)
next
  case False
  then have "\<not> (\<exists>j\<le>length t. wordBoundary t j)" using wordBoundary_exists_iff [of t] by blast
  then have "regexExec (wordRegex []) t 0 = None"
    by (intro regexExec_NoneI) (auto simp: matchAtoms_wordRegex)
  then have "matchesFrom (wordRegex []) t 0 []" by simp
  from execLoop_matchesFrom [OF this, of "[]"] False assms show ?thesis
    by (simp add: findWordBoundaries_eq)
qed

lemma matchesFrom_mem:
  "matchesFrom r s li ms \<Longrightarrow> m \<in> set ms \<Longrightarrow>
   \<exists>i e. li \<le> i \<and> i \<le> length s \<and> matchAtoms r s i = Some e
         \<and> m = \<lparr>start = int i, end' = int e, text' = take (e - i) (drop i s)\<rparr>"
proof (induction ms arbitrary: li)
  case Nil
  then show ?case by simp
next
  case (Cons m0 ms)
  from Cons.prems(1) obtain i e where ex: "regexExec r s li = Some (i, e)"
    and m0: "m0 = \<lparr>start = int i, end' = int e, text' = take (e - i) (drop i s)\<rparr>"
    and rest: "matchesFrom r s e ms"
    by (auto split: option.splits)
  from regexExec_SomeD [OF ex] have li: "li \<le> i" and i: "i \<le> length s"
    and mi: "matchAtoms r s i = Some e" by simp_all
  show ?case
  proof (cases "m = m0")
    case True
    with m0 li i mi show ?thesis by blast
  next
    case False
    with Cons.prems(2) have "m \<in> set ms" by simp
    from Cons.IH [OF rest this] obtain i' e' where "e \<le> i'" "i' \<le> length s"
      "matchAtoms r s i' = Some e'"
      "m = \<lparr>start = int i', end' = int e', text' = take (e' - i') (drop i' s)\<rparr>" by blast
    moreover from matchAtoms_bounds [OF i mi] li have "li \<le> e" by simp
    ultimately show ?thesis by (intro exI [of _ i'] exI [of _ e']) simp
  qed
qed

lemma matchesFrom_disjoint:
  "matchesFrom r s li ms \<Longrightarrow> sorted_wrt (\<lambda>a b. end' a \<le> start b) ms"
proof (induction ms arbitrary: li)
  case Nil
  then show ?case by simp
next
  case (Cons m0 ms)
  from Cons.prems(1) obtain i e where ex: "regexExec r s li = Some (i, e)"
    and m0: "m0 = \<lparr>start = int i, end' = int e, text' = take (e - i) (drop i s)\<rparr>"
    and rest: "matchesFrom r s e ms"
    by (auto split: option.splits)
  have "\<forall>m\<in>set ms. end' m0 \<le> start m"
  proof
    fix m assume "m \<in> set ms"
    from matchesFrom_mem [OF rest this] m0 show "end' m0 \<le> start m" by auto
  qed
  with Cons.IH [OF rest] show ?case by simp
qed

lemma matchesFrom_wordRegex_mem:
  assumes "matchesFrom (wordRegex w) s li ms" and "m \<in> set ms"
  shows "\<exists>i. li \<le> i \<and> i + length w \<le> length s
           \<and> m = \<lparr>start = int i, end' = int (i + length w), text' = take (length w) (drop i s)\<rparr>
           \<and> wordBoundary s i \<and> wordBoundary s (i + length w)
           \<and> map canonicalize (take (length w) (drop i s)) = map canonicalize w"
proof -
  from matchesFrom_mem [OF assms] obtain i e where li: "li \<le> i" and i: "i \<le> length s"
    and mi: "matchAtoms (wordRegex w) s i = Some e"
    and m: "m = \<lparr>start = int i, end' = int e, text' = take (e - i) (drop i s)\<rparr>" by blast
  from mi i have e: "e = i + length w" and b: "wordBoundary s i" "wordBoundary s (i + length w)"
    and len: "i + length w \<le> length s"
    and c: "map canonicalize (take (length w) (drop i s)) = map canonicalize w"
    by (auto simp: matchAtoms_wordRegex split: if_splits)
  from li len m e b c show ?thesis by (intro exI [of _ i]) simp
qed

section \<open>The closest match is the nearest\<close>

lemma nearer_refl: "nearer h a a"
  by (simp add: nearer_def)

lemma nearer_trans: "nearer h a b \<Longrightarrow> nearer h b c \<Longrightarrow> nearer h a c"
  by (auto simp: nearer_def)

lemma closestLoop_nearer:
  assumes "d = \<bar>start c - h\<bar>"
    and "\<forall>m\<in>set ms. start c \<le> start m"
    and "sorted_wrt (\<lambda>a b. start a \<le> start b) ms"
  shows "fst (closestLoop h ms (c, d)) \<in> insert c (set ms)
         \<and> nearer h (fst (closestLoop h ms (c, d))) c
         \<and> (\<forall>m\<in>set ms. nearer h (fst (closestLoop h ms (c, d))) m)"
  using assms
proof (induction ms arbitrary: c d)
  case Nil
  then show ?case by (simp add: nearer_refl)
next
  case (Cons m ms)
  show ?case
  proof (cases "\<bar>start m - h\<bar> < d")
    case True
    have "\<forall>x\<in>set ms. start m \<le> start x" using Cons.prems(3) by simp
    moreover have "sorted_wrt (\<lambda>a b. start a \<le> start b) ms" using Cons.prems(3) by simp
    ultimately have IH: "fst (closestLoop h ms (m, \<bar>start m - h\<bar>)) \<in> insert m (set ms)
         \<and> nearer h (fst (closestLoop h ms (m, \<bar>start m - h\<bar>))) m
         \<and> (\<forall>x\<in>set ms. nearer h (fst (closestLoop h ms (m, \<bar>start m - h\<bar>))) x)"
      using Cons.IH [of "\<bar>start m - h\<bar>" m] by simp
    have "nearer h m c" using True Cons.prems(1) by (simp add: nearer_def)
    with IH have "nearer h (fst (closestLoop h ms (m, \<bar>start m - h\<bar>))) c"
      by (blast intro: nearer_trans)
    with IH True show ?thesis by (simp add: Let_def)
  next
    case False
    have "\<forall>x\<in>set ms. start c \<le> start x" using Cons.prems(2) by simp
    moreover have "sorted_wrt (\<lambda>a b. start a \<le> start b) ms" using Cons.prems(3) by simp
    ultimately have IH: "fst (closestLoop h ms (c, d)) \<in> insert c (set ms)
         \<and> nearer h (fst (closestLoop h ms (c, d))) c
         \<and> (\<forall>x\<in>set ms. nearer h (fst (closestLoop h ms (c, d))) x)"
      using Cons.IH [of d c] Cons.prems(1) by simp
    have "nearer h c m" using False Cons.prems(1,2) by (auto simp: nearer_def)
    with IH have "nearer h (fst (closestLoop h ms (c, d))) m"
      by (blast intro: nearer_trans)
    with IH False show ?thesis by (auto simp: Let_def)
  qed
qed

lemma closestMatch_nearest:
  assumes "sorted_wrt (\<lambda>a b. start a \<le> start b) (m0 # ms)"
  shows "closestMatch h m0 ms \<in> set (m0 # ms)
         \<and> (\<forall>m\<in>set (m0 # ms). nearer h (closestMatch h m0 ms) m)"
proof -
  have "\<forall>m\<in>set (m0 # ms). start m0 \<le> start m" using assms by auto
  from closestLoop_nearer [OF refl this assms, of h]
  show ?thesis by (auto simp: closestMatch_def)
qed

lemma closestLoop_mem: "fst (closestLoop h xs (c, d)) \<in> insert c (set xs)"
  by (induction xs arbitrary: c d) (auto simp: Let_def)

lemma closestMatch_mem: "closestMatch h m0 ms \<in> set (m0 # ms)"
  using closestLoop_mem [of h "m0 # ms" m0 "\<bar>start m0 - h\<bar>"]
  by (simp add: closestMatch_def del: closestLoop.simps)

lemma toLowerCase_idem: "toLowerCase (toLowerCase x) = toLowerCase x"
  by (simp add: toLowerCase_eq_iff canonicalize_toLowerCase)

lemma isWordChar_canonicalize: "isWordChar (canonicalize c) = isWordChar c"
proof -
  have "(of_char c :: nat) < 256" by simp
  then show ?thesis
    unfolding isWordChar_def of_char_canonicalize Let_def
    by (simp split: if_splits) arith
qed

lemma isWordChar_cong: "canonicalize a = canonicalize b \<Longrightarrow> isWordChar a = isWordChar b"
  by (metis isWordChar_canonicalize)

text \<open>What every returned match is, for the search word \<open>sw = trim (toLowerCase word)\<close>.\<close>

lemma findWordBoundaries_mem:
  assumes "findWordBoundaries text word hint = Some (Inr ms)" and "m \<in> set ms"
  shows "\<exists>i. i + length (trim (toLowerCase word)) \<le> length text
           \<and> trim (toLowerCase word) \<noteq> []
           \<and> m = \<lparr>start = int i, end' = int (i + length (trim (toLowerCase word))),
                  text' = take (length (trim (toLowerCase word))) (drop i text)\<rparr>
           \<and> wordBoundary text i \<and> wordBoundary text (i + length (trim (toLowerCase word)))
           \<and> map canonicalize (take (length (trim (toLowerCase word))) (drop i text))
               = map canonicalize (trim (toLowerCase word))"
proof -
  from findWordBoundaries_SomeD [OF assms(1)]
  have mf: "matchesFrom (wordRegex (trim (toLowerCase word))) text 0 ms"
    and ne: "ms \<noteq> [] \<longrightarrow> trim (toLowerCase word) \<noteq> []" by auto
  from assms(2) ne have "trim (toLowerCase word) \<noteq> []" by auto
  with matchesFrom_wordRegex_mem [OF mf assms(2)] show ?thesis by blast
qed

lemma findWordBoundaries_sorted:
  assumes "findWordBoundaries text word hint = Some (Inr ms)"
  shows "sorted_wrt (\<lambda>a b. start a < start b \<and> end' a \<le> start b) ms"
proof -
  from findWordBoundaries_SomeD [OF assms]
  have mf: "matchesFrom (wordRegex (trim (toLowerCase word))) text 0 ms" by auto
  have "sorted_wrt (\<lambda>a b. end' a \<le> start b) ms" using mf by (rule matchesFrom_disjoint)
  moreover have "\<And>a b. a \<in> set ms \<Longrightarrow> b \<in> set ms \<Longrightarrow> end' a \<le> start b
                  \<Longrightarrow> start a < start b \<and> end' a \<le> start b"
  proof -
    fix a b assume a: "a \<in> set ms" and "end' a \<le> start b"
    from findWordBoundaries_mem [OF assms a] have "start a < end' a" by auto
    with \<open>end' a \<le> start b\<close> show "start a < start b \<and> end' a \<le> start b" by simp
  qed
  ultimately show ?thesis by (rule sorted_wrt_mono_rel [rotated])
qed

section \<open>What the locator returns\<close>

text \<open>
  Claim C10. Every match that \<open>findWordBoundaries\<close> returns is a well-formed occurrence:
  \<open>0 \<le> start < end \<le> length text\<close>, its length is the length of the trimmed search word,
  its text is the slice of the text at its span and equals the trimmed word up to case,
  and the matches come in strictly ascending start order, none overlapping the next.
  The call returns whenever the trimmed word is not empty.
\<close>

theorem locator_matches_well_formed:
  "(trim (toLowerCase word) \<noteq> [] \<longrightarrow> (\<exists>ms. findWordBoundaries text word hint = Some (Inr ms)))
   \<and> (\<forall>ms. findWordBoundaries text word hint = Some (Inr ms) \<longrightarrow>
         (\<forall>m\<in>set ms.
            0 \<le> start m \<and> start m < end' m \<and> end' m \<le> int (length text)
            \<and> end' m - start m = int (length (trim (toLowerCase word)))
            \<and> length (trim (toLowerCase word)) = length (trim word)
            \<and> text' m = take (nat (end' m - start m)) (drop (nat (start m)) text)
            \<and> toLowerCase (text' m) = toLowerCase (trim word))
         \<and> sorted_wrt (\<lambda>a b. start a < start b \<and> end' a \<le> start b) ms)"
proof (intro conjI allI impI ballI)
  assume "trim (toLowerCase word) \<noteq> []"
  then show "\<exists>ms. findWordBoundaries text word hint = Some (Inr ms)"
    by (rule findWordBoundaries_total)
next
  fix ms assume r: "findWordBoundaries text word hint = Some (Inr ms)"
  then show "sorted_wrt (\<lambda>a b. start a < start b \<and> end' a \<le> start b) ms"
    by (rule findWordBoundaries_sorted)
  fix m assume m: "m \<in> set ms"
  define sw where "sw = trim (toLowerCase word)"
  from findWordBoundaries_mem [OF r m] obtain i where len: "i + length sw \<le> length text"
    and ne: "sw \<noteq> []"
    and meq: "m = \<lparr>start = int i, end' = int (i + length sw), text' = take (length sw) (drop i text)\<rparr>"
    and c: "map canonicalize (take (length sw) (drop i text)) = map canonicalize sw"
    unfolding sw_def by blast
  show "0 \<le> start m" "start m < end' m" "end' m \<le> int (length text)"
    using meq len ne by simp_all
  show "end' m - start m = int (length (trim (toLowerCase word)))"
    using meq by (simp add: sw_def)
  show "length (trim (toLowerCase word)) = length (trim word)"
    by (simp add: trim_toLowerCase)
  show "text' m = take (nat (end' m - start m)) (drop (nat (start m)) text)"
    using meq by simp
  have "toLowerCase (text' m) = toLowerCase sw"
    using c meq by (simp add: toLowerCase_eq_iff)
  then show "toLowerCase (text' m) = toLowerCase (trim word)"
    by (simp add: sw_def trim_toLowerCase toLowerCase_idem)
qed

theorem locator_matches_well_formed_witness:
  "trim (toLowerCase ''cat '') \<noteq> []
   \<and> findWordBoundaries ''Cat cat'' ''cat '' 0
       = Some (Inr [\<lparr>start = 0, end' = 3, text' = ''Cat''\<rparr>, \<lparr>start = 4, end' = 7, text' = ''cat''\<rparr>])
   \<and> length (trim (toLowerCase ''cat '')) = 3
   \<and> toLowerCase ''Cat'' = toLowerCase (trim ''cat '')
   \<and> sorted_wrt (\<lambda>a b. start a < start b \<and> end' a \<le> start b)
        [\<lparr>start = 0, end' = 3, text' = ''Cat''\<rparr>, \<lparr>start = 4, end' = 7, text' = ''cat''\<rparr>]"
proof -
  have e: "findWordBoundaries ''Cat cat'' ''cat '' 0
       = Some (Inr [\<lparr>start = 0, end' = 3, text' = ''Cat''\<rparr>, \<lparr>start = 4, end' = 7, text' = ''cat''\<rparr>])"
    by code_simp
  have n: "trim (toLowerCase ''cat '') \<noteq> []" by code_simp
  have l: "length (trim (toLowerCase ''cat '')) = 3" by code_simp
  from locator_matches_well_formed [of "''cat ''" "''Cat cat''" 0, THEN conjunct1, THEN mp, OF n]
  have "\<exists>ms. findWordBoundaries ''Cat cat'' ''cat '' 0 = Some (Inr ms)" .
  note w = locator_matches_well_formed [of "''cat ''" "''Cat cat''" 0, THEN conjunct2, THEN spec, THEN mp, OF e]
  from w have "toLowerCase ''Cat'' = toLowerCase (trim ''cat '')"
    and "sorted_wrt (\<lambda>a b. start a < start b \<and> end' a \<le> start b)
        [\<lparr>start = 0, end' = 3, text' = ''Cat''\<rparr>, \<lparr>start = 4, end' = 7, text' = ''cat''\<rparr>]"
    by simp_all
  with e n l show ?thesis by simp
qed

lemma take_drop_hd:
  "n \<noteq> 0 \<Longrightarrow> i + n \<le> length s \<Longrightarrow> hd (take n (drop i s)) = s ! i"
  by (cases n) (simp_all add: hd_drop_conv_nth)

lemma take_drop_last:
  "n \<noteq> 0 \<Longrightarrow> i + n \<le> length s \<Longrightarrow> last (take n (drop i s)) = s ! (i + n - 1)"
  by (simp add: last_conv_nth)

lemma map_canonicalize_hd:
  "map canonicalize x = map canonicalize y \<Longrightarrow> y \<noteq> [] \<Longrightarrow> isWordChar (hd x) = isWordChar (hd y)"
  by (cases x; cases y) (auto dest: isWordChar_cong)

lemma map_canonicalize_last:
  assumes "map canonicalize x = map canonicalize y" and "y \<noteq> []"
  shows "isWordChar (last x) = isWordChar (last y)"
proof -
  from assms have "map canonicalize (rev x) = map canonicalize (rev y)" and "rev y \<noteq> []"
    by (simp_all add: rev_map [symmetric])
  from map_canonicalize_hd [OF this] show ?thesis by (simp add: hd_rev)
qed

text \<open>
  Claim C5, as the code has it. Every match that \<open>findWordBoundaries\<close> returns starts and
  ends where the assertion \<open>\b\<close> holds: exactly one of the two characters next to the
  position is a word character, a string edge counting as none. So when the trimmed word
  begins with a word character the match is preceded by a non-word character or the
  start of the text, and when it ends with one the match is followed by a non-word
  character or the end of the text. For the text \<open>category of cats\<close> and the word
  \<open>cat\<close> no match is returned at all: none inside \<open>category\<close>, and none at offset 12,
  where \<open>cat\<close> is followed by the word character \<open>s\<close>.
\<close>

theorem locator_matches_between_word_boundaries:
  "(trim (toLowerCase word) \<noteq> [] \<longrightarrow> (\<exists>ms. findWordBoundaries text word hint = Some (Inr ms)))
   \<and> (\<forall>ms. findWordBoundaries text word hint = Some (Inr ms) \<longrightarrow>
         (\<forall>m\<in>set ms.
            wordBoundary text (nat (start m)) \<and> wordBoundary text (nat (end' m))
            \<and> (isWordChar (hd (trim (toLowerCase word))) \<longrightarrow>
                  start m = 0 \<or> \<not> isWordChar (text ! (nat (start m) - 1)))
            \<and> (isWordChar (last (trim (toLowerCase word))) \<longrightarrow>
                  end' m = int (length text) \<or> \<not> isWordChar (text ! nat (end' m)))))
   \<and> findWordBoundaries ''category of cats'' ''cat'' 0 = Some (Inr [])"
proof (intro conjI allI impI ballI)
  assume "trim (toLowerCase word) \<noteq> []"
  then show "\<exists>ms. findWordBoundaries text word hint = Some (Inr ms)"
    by (rule findWordBoundaries_total)
next
  show "findWordBoundaries ''category of cats'' ''cat'' 0 = Some (Inr [])"
    by code_simp
next
  fix ms m assume r: "findWordBoundaries text word hint = Some (Inr ms)" and m: "m \<in> set ms"
  define sw where "sw = trim (toLowerCase word)"
  from findWordBoundaries_mem [OF r m] obtain i where len: "i + length sw \<le> length text"
    and ne: "sw \<noteq> []"
    and meq: "m = \<lparr>start = int i, end' = int (i + length sw), text' = take (length sw) (drop i text)\<rparr>"
    and b1: "wordBoundary text i" and b2: "wordBoundary text (i + length sw)"
    and c: "map canonicalize (take (length sw) (drop i text)) = map canonicalize sw"
    unfolding sw_def by blast
  from ne have n0: "length sw \<noteq> 0" by simp
  show "wordBoundary text (nat (start m))" using meq b1 by simp
  have en: "nat (end' m) = i + length sw" using meq by (simp add: nat_add_distrib)
  show "wordBoundary text (nat (end' m))" using b2 by (simp only: en)
  {
    assume "isWordChar (hd (trim (toLowerCase word)))"
    then have "isWordChar (hd (take (length sw) (drop i text)))"
      using map_canonicalize_hd [OF c ne] by (simp add: sw_def)
    then have "isWordChar (text ! i)" by (simp add: take_drop_hd [OF n0 len])
    with b1 len n0 have "i = 0 \<or> \<not> isWordChar (text ! (i - 1))"
      by (auto simp: wordBoundary_def)
    then show "start m = 0 \<or> \<not> isWordChar (text ! (nat (start m) - 1))"
      using meq by simp
  }
  {
    assume "isWordChar (last (trim (toLowerCase word)))"
    then have "isWordChar (last (take (length sw) (drop i text)))"
      using map_canonicalize_last [OF c ne] by (simp add: sw_def)
    then have "isWordChar (text ! (i + length sw - 1))" by (simp add: take_drop_last [OF n0 len])
    with b2 len n0 have "i + length sw = length text \<or> \<not> isWordChar (text ! (i + length sw))"
      by (auto simp: wordBoundary_def)
    then show "end' m = int (length text) \<or> \<not> isWordChar (text ! nat (end' m))"
      unfolding en using meq by auto
  }
qed

theorem locator_matches_between_word_boundaries_witness:
  "trim (toLowerCase ''cat'') \<noteq> []
   \<and> findWordBoundaries ''a cat.'' ''cat'' 0 = Some (Inr [\<lparr>start = 2, end' = 5, text' = ''cat''\<rparr>])
   \<and> wordBoundary ''a cat.'' 2 \<and> wordBoundary ''a cat.'' 5
   \<and> isWordChar (hd (trim (toLowerCase ''cat''))) \<and> \<not> isWordChar (''a cat.'' ! 1)
   \<and> isWordChar (last (trim (toLowerCase ''cat''))) \<and> \<not> isWordChar (''a cat.'' ! 5)"
proof -
  have e: "findWordBoundaries ''a cat.'' ''cat'' 0 = Some (Inr [\<lparr>start = 2, end' = 5, text' = ''cat''\<rparr>])"
    by code_simp
  have n: "trim (toLowerCase ''cat'') \<noteq> []" by code_simp
  have h: "isWordChar (hd (trim (toLowerCase ''cat'')))" by code_simp
  have l: "isWordChar (last (trim (toLowerCase ''cat'')))" by code_simp
  from locator_matches_between_word_boundaries [of "''cat''" "''a cat.''" 0,
      THEN conjunct1, THEN mp, OF n]
  have "\<exists>ms. findWordBoundaries ''a cat.'' ''cat'' 0 = Some (Inr ms)" .
  note w = locator_matches_between_word_boundaries [of "''cat''" "''a cat.''" 0,
      THEN conjunct2, THEN conjunct1, THEN spec, THEN mp, OF e]
  from w h l have "wordBoundary ''a cat.'' 2 \<and> wordBoundary ''a cat.'' 5
      \<and> \<not> isWordChar (''a cat.'' ! 1) \<and> \<not> isWordChar (''a cat.'' ! 5)"
    by simp
  with e n h l show ?thesis by simp
qed

text \<open>
  Against C5 as stated: the call on \<open>category of cats\<close> returns the empty list, not the
  occurrence at offset 12; and a word that is not made of word characters is matched
  between word characters (\<open>.\<close> inside \<open>a.b\<close>).
\<close>

theorem locator_returns_no_match_at_cats_counterexample:
  "findWordBoundaries ''category of cats'' ''cat'' 0 = Some (Inr [])
   \<and> \<not> (\<exists>m. findWordBoundaries ''category of cats'' ''cat'' 0 = Some (Inr [m]) \<and> start m = 12)
   \<and> findWordBoundaries ''a.b'' ''.'' 0 = Some (Inr [\<lparr>start = 1, end' = 2, text' = ''.''\<rparr>])
   \<and> isWordChar (''a.b'' ! 0) \<and> isWordChar (''a.b'' ! 2)"
proof -
  have a: "findWordBoundaries ''category of cats'' ''cat'' 0 = Some (Inr [])" by code_simp
  have b: "findWordBoundaries ''a.b'' ''.'' 0 = Some (Inr [\<lparr>start = 1, end' = 2, text' = ''.''\<rparr>])"
    by code_simp
  have c: "isWordChar (''a.b'' ! 0) \<and> isWordChar (''a.b'' ! 2)" by code_simp
  from a b c show ?thesis by simp
qed

text \<open>
  Claim C6, as the code has it. The list that \<open>findWordBoundaries\<close> returns does not depend
  on the hint (\<open>startSearchPos\<close> is never read) and is in strictly ascending order of start
  offset. The distance to the hint is the business of the callers: their loop over this
  list picks the match whose start is nearest to the hint, the smaller start offset on a
  tie.
\<close>

theorem locator_returns_text_order:
  "findWordBoundaries text word hintStart = findWordBoundaries text word 0
   \<and> (\<forall>ms. findWordBoundaries text word hintStart = Some (Inr ms) \<longrightarrow>
         sorted_wrt (\<lambda>a b. start a < start b) ms
         \<and> (\<forall>m0 rest. ms = m0 # rest \<longrightarrow>
               closestMatch hintStart m0 rest \<in> set ms
               \<and> (\<forall>m\<in>set ms.
                     \<bar>start (closestMatch hintStart m0 rest) - hintStart\<bar> < \<bar>start m - hintStart\<bar>
                     \<or> (\<bar>start (closestMatch hintStart m0 rest) - hintStart\<bar> = \<bar>start m - hintStart\<bar>
                         \<and> start (closestMatch hintStart m0 rest) \<le> start m))))"
proof (intro conjI allI impI)
  show "findWordBoundaries text word hintStart = findWordBoundaries text word 0"
    by (simp add: findWordBoundaries_def)
next
  fix ms assume r: "findWordBoundaries text word hintStart = Some (Inr ms)"
  from findWordBoundaries_sorted [OF r]
  show s: "sorted_wrt (\<lambda>a b. start a < start b) ms"
    by (rule sorted_wrt_mono_rel [rotated]) simp
  fix m0 rest assume ms: "ms = m0 # rest"
  from s have "sorted_wrt (\<lambda>a b. start a \<le> start b) (m0 # rest)"
    unfolding ms by (rule sorted_wrt_mono_rel [rotated]) simp
  from closestMatch_nearest [OF this, of hintStart]
  show "closestMatch hintStart m0 rest \<in> set ms"
    and "\<forall>m\<in>set ms.
                     \<bar>start (closestMatch hintStart m0 rest) - hintStart\<bar> < \<bar>start m - hintStart\<bar>
                     \<or> (\<bar>start (closestMatch hintStart m0 rest) - hintStart\<bar> = \<bar>start m - hintStart\<bar>
                         \<and> start (closestMatch hintStart m0 rest) \<le> start m)"
    unfolding ms nearer_def by blast+
qed

theorem locator_returns_text_order_witness:
  "findWordBoundaries ''cat dog cat'' ''cat'' 8
     = Some (Inr [\<lparr>start = 0, end' = 3, text' = ''cat''\<rparr>, \<lparr>start = 8, end' = 11, text' = ''cat''\<rparr>])
   \<and> sorted_wrt (\<lambda>a b. start a < start b)
        [\<lparr>start = 0, end' = 3, text' = ''cat''\<rparr>, \<lparr>start = 8, end' = 11, text' = ''cat''\<rparr>]
   \<and> closestMatch 8 \<lparr>start = 0, end' = 3, text' = ''cat''\<rparr> [\<lparr>start = 8, end' = 11, text' = ''cat''\<rparr>]
       = \<lparr>start = 8, end' = 11, text' = ''cat''\<rparr>"
proof -
  have e: "findWordBoundaries ''cat dog cat'' ''cat'' 8
     = Some (Inr [\<lparr>start = 0, end' = 3, text' = ''cat''\<rparr>, \<lparr>start = 8, end' = 11, text' = ''cat''\<rparr>])"
    by code_simp
  note w = locator_returns_text_order [of "''cat dog cat''" "''cat''" 8,
      THEN conjunct2, THEN spec, THEN mp, OF e]
  have c: "closestMatch 8 \<lparr>start = 0, end' = 3, text' = ''cat''\<rparr> [\<lparr>start = 8, end' = 11, text' = ''cat''\<rparr>]
       = \<lparr>start = 8, end' = 11, text' = ''cat''\<rparr>"
    by (simp add: closestMatch_def)
  from w have "sorted_wrt (\<lambda>a b. start a < start b)
        [\<lparr>start = 0, end' = 3, text' = ''cat''\<rparr>, \<lparr>start = 8, end' = 11, text' = ''cat''\<rparr>]"
    by blast
  with e c show ?thesis by simp
qed

text \<open>
  Against C6 as stated: with hint 8 the matches at 0 and 8 are returned in this order,
  at distances 8 and 0.
\<close>

theorem locator_order_by_distance_counterexample:
  "findWordBoundaries ''cat dog cat'' ''cat'' 8
     = Some (Inr [\<lparr>start = 0, end' = 3, text' = ''cat''\<rparr>, \<lparr>start = 8, end' = 11, text' = ''cat''\<rparr>])
   \<and> \<not> sorted (map (\<lambda>m. \<bar>start m - 8\<bar>)
         [\<lparr>start = 0, end' = 3, text' = ''cat''\<rparr>, \<lparr>start = 8, end' = 11, text' = ''cat''\<rparr>])"
proof -
  have e: "findWordBoundaries ''cat dog cat'' ''cat'' 8
     = Some (Inr [\<lparr>start = 0, end' = 3, text' = ''cat''\<rparr>, \<lparr>start = 8, end' = 11, text' = ''cat''\<rparr>])"
    by code_simp
  then show ?thesis by simp
qed

section \<open>Accepting one suggestion\<close>

lemma findWordBoundaries_hint: "findWordBoundaries t w h = findWordBoundaries t w h'"
  by (simp add: findWordBoundaries_def)

lemma findWordBoundaries_cases:
  obtains (diverges) "findWordBoundaries t w h = None"
  | (returns) ms where "findWordBoundaries t w h = Some (Inr ms)"
proof (cases "findWordBoundaries t w h")
  case None
  then show ?thesis by (rule diverges)
next
  case (Some r)
  from findWordBoundaries_SomeD [OF Some] obtain ms where "r = Inr ms" by blast
  with Some show ?thesis by (intro returns [of ms]) simp
qed

lemma reconcile_exact:
  "substring t (start (position s)) (end' (position s)) = original s
   \<Longrightarrow> reconcile t s = Some (Inr (Some (position s)))"
  by (simp add: reconcile_def)

lemma reconcile_fuzzy:
  "trim (toLowerCase (substring t (start (position s)) (end' (position s))))
     = trim (toLowerCase (original s))
   \<Longrightarrow> reconcile t s = Some (Inr (Some (position s)))"
  by (simp add: reconcile_def Let_def)

lemma reconcile_relocate:
  assumes "substring t (start (position s)) (end' (position s)) \<noteq> original s"
    and "trim (toLowerCase (substring t (start (position s)) (end' (position s))))
           \<noteq> trim (toLowerCase (original s))"
  shows "reconcile t s =
     (case findWordBoundaries t (original s) 0 of
        None \<Rightarrow> None
      | Some (Inl e) \<Rightarrow> Some (Inl e)
      | Some (Inr []) \<Rightarrow> Some (Inr None)
      | Some (Inr (m0 # ms)) \<Rightarrow>
          Some (Inr (Some \<lparr>start = start (closestMatch (start (position s)) m0 ms),
                            end' = end' (closestMatch (start (position s)) m0 ms)\<rparr>)))"
  using assms
  by (simp add: reconcile_def andThen_def Let_def split: option.splits sum.splits list.splits)

lemma reconcile_never_throws: "reconcile t s \<noteq> Some (Inl e)"
  using findWordBoundaries_never_throws [of t "original s" 0]
  by (auto simp: reconcile_def andThen_def Let_def split: option.splits sum.splits list.splits)

text \<open>
  Reconciliation (lines 350 to 391 of \<open>handleAcceptSuggestion\<close>) is the three-tier
  fallback. When the text at the span equals \<open>original\<close>, the span is returned unchanged;
  when it equals \<open>original\<close> after lower-casing and trimming both, the span is returned
  unchanged; otherwise, when the locator returns at least one match for \<open>original\<close>, the
  span of the match whose start is nearest to \<open>span.start\<close> is returned, the smaller start
  offset on a tie. The text at the span is what \<open>substring\<close> gives, the slice
  \<open>text[start:end]\<close> for a span within the text. For the text \<open>The qick fox\<close> and the
  suggestion of \<open>qick\<close> at \<open>[0, 4)\<close> the result is \<open>[4, 8)\<close>. The third tier is stated
  for a call of the locator that returns; the last section has the calls that do not.
\<close>

theorem reconcile_three_tiers:
  "(substring text (start (position s)) (end' (position s)) = original s
      \<longrightarrow> reconcile text s = Some (Inr (Some (position s))))
   \<and> (trim (toLowerCase (substring text (start (position s)) (end' (position s))))
        = trim (toLowerCase (original s))
      \<longrightarrow> reconcile text s = Some (Inr (Some (position s))))
   \<and> (substring text (start (position s)) (end' (position s)) \<noteq> original s
      \<longrightarrow> trim (toLowerCase (substring text (start (position s)) (end' (position s))))
            \<noteq> trim (toLowerCase (original s))
      \<longrightarrow> (\<forall>hint m0 ms.
             findWordBoundaries text (original s) hint = Some (Inr (m0 # ms)) \<longrightarrow>
             (\<exists>c\<in>set (m0 # ms).
                reconcile text s = Some (Inr (Some \<lparr>start = start c, end' = end' c\<rparr>))
                \<and> (\<forall>m\<in>set (m0 # ms).
                      \<bar>start c - start (position s)\<bar> < \<bar>start m - start (position s)\<bar>
                      \<or> (\<bar>start c - start (position s)\<bar> = \<bar>start m - start (position s)\<bar>
                          \<and> start c \<le> start m)))))
   \<and> (0 \<le> start (position s) \<longrightarrow> start (position s) \<le> end' (position s)
      \<longrightarrow> end' (position s) \<le> int (length text)
      \<longrightarrow> substring text (start (position s)) (end' (position s))
            = take (nat (end' (position s)) - nat (start (position s))) (drop (nat (start (position s))) text))
   \<and> reconcile ''The qick fox''
        \<lparr>id' = ''suggestion-1-0'', type' = JString ''spelling'', position = \<lparr>start = 0, end' = 4\<rparr>,
         original = ''qick'', correction = ''quick'', explanation = JString ''typo''\<rparr>
       = Some (Inr (Some \<lparr>start = 4, end' = 8\<rparr>))"
proof (intro conjI allI impI)
  assume "substring text (start (position s)) (end' (position s)) = original s"
  then show "reconcile text s = Some (Inr (Some (position s)))" by (rule reconcile_exact)
next
  assume "trim (toLowerCase (substring text (start (position s)) (end' (position s))))
        = trim (toLowerCase (original s))"
  then show "reconcile text s = Some (Inr (Some (position s)))" by (rule reconcile_fuzzy)
next
  show "reconcile ''The qick fox''
        \<lparr>id' = ''suggestion-1-0'', type' = JString ''spelling'', position = \<lparr>start = 0, end' = 4\<rparr>,
         original = ''qick'', correction = ''quick'', explanation = JString ''typo''\<rparr>
       = Some (Inr (Some \<lparr>start = 4, end' = 8\<rparr>))"
    by code_simp
next
  assume "0 \<le> start (position s)" "start (position s) \<le> end' (position s)"
    "end' (position s) \<le> int (length text)"
  then show "substring text (start (position s)) (end' (position s))
            = take (nat (end' (position s)) - nat (start (position s))) (drop (nat (start (position s))) text)"
    by (rule substring_slice)
next
  fix hint m0 ms
  assume ne: "substring text (start (position s)) (end' (position s)) \<noteq> original s"
    and nf: "trim (toLowerCase (substring text (start (position s)) (end' (position s))))
            \<noteq> trim (toLowerCase (original s))"
    and r: "findWordBoundaries text (original s) hint = Some (Inr (m0 # ms))"
  define c where "c = closestMatch (start (position s)) m0 ms"
  from r have r0: "findWordBoundaries text (original s) 0 = Some (Inr (m0 # ms))"
    by (simp add: findWordBoundaries_hint [of _ _ 0 hint])
  have rec: "reconcile text s = Some (Inr (Some \<lparr>start = start c, end' = end' c\<rparr>))"
    by (simp add: reconcile_relocate [OF ne nf] r0 c_def)
  from findWordBoundaries_sorted [OF r]
  have "sorted_wrt (\<lambda>a b. start a \<le> start b) (m0 # ms)"
    by (rule sorted_wrt_mono_rel [rotated]) simp
  from closestMatch_nearest [OF this, of "start (position s)"]
  have "c \<in> set (m0 # ms)" and "\<forall>m\<in>set (m0 # ms). nearer (start (position s)) c m"
    by (simp_all add: c_def)
  with rec show "\<exists>c\<in>set (m0 # ms).
                reconcile text s = Some (Inr (Some \<lparr>start = start c, end' = end' c\<rparr>))
                \<and> (\<forall>m\<in>set (m0 # ms).
                      \<bar>start c - start (position s)\<bar> < \<bar>start m - start (position s)\<bar>
                      \<or> (\<bar>start c - start (position s)\<bar> = \<bar>start m - start (position s)\<bar>
                          \<and> start c \<le> start m))"
    unfolding nearer_def by blast
qed


theorem reconcile_three_tiers_witness:
  "substring ''cat x cat'' 3 5 \<noteq> ''cat''
   \<and> trim (toLowerCase (substring ''cat x cat'' 3 5)) \<noteq> trim (toLowerCase ''cat'')
   \<and> findWordBoundaries ''cat x cat'' ''cat'' 3
       = Some (Inr [\<lparr>start = 0, end' = 3, text' = ''cat''\<rparr>, \<lparr>start = 6, end' = 9, text' = ''cat''\<rparr>])
   \<and> reconcile ''cat x cat''
        \<lparr>id' = ''suggestion-1-0'', type' = JString ''spelling'', position = \<lparr>start = 3, end' = 5\<rparr>,
         original = ''cat'', correction = ''dog'', explanation = JString ''pet''\<rparr>
       = Some (Inr (Some \<lparr>start = 0, end' = 3\<rparr>))"
proof -
  define s where "s = \<lparr>id' = ''suggestion-1-0'', type' = JString ''spelling'',
    position = \<lparr>start = 3, end' = 5\<rparr>, original = ''cat'', correction = ''dog'', explanation = JString ''pet''\<rparr>"
  have a: "substring ''cat x cat'' (start (position s)) (end' (position s)) \<noteq> original s"
    unfolding s_def by code_simp
  have b: "trim (toLowerCase (substring ''cat x cat'' (start (position s)) (end' (position s))))
      \<noteq> trim (toLowerCase (original s))"
    unfolding s_def by code_simp
  have e: "findWordBoundaries ''cat x cat'' (original s) 3
       = Some (Inr [\<lparr>start = 0, end' = 3, text' = ''cat''\<rparr>, \<lparr>start = 6, end' = 9, text' = ''cat''\<rparr>])"
    unfolding s_def by code_simp
  note w = reconcile_three_tiers [of "''cat x cat''" s, THEN conjunct2, THEN conjunct2, THEN conjunct1,
      THEN mp, OF a, THEN mp, OF b, THEN spec, THEN spec, THEN spec, THEN mp, OF e]
  then obtain c where c: "c \<in> set [\<lparr>start = 0, end' = 3, text' = ''cat''\<rparr>, \<lparr>start = 6, end' = 9, text' = ''cat''\<rparr>]"
    and r: "reconcile ''cat x cat'' s = Some (Inr (Some \<lparr>start = start c, end' = end' c\<rparr>))"
    and n: "\<forall>m\<in>set [\<lparr>start = 0, end' = 3, text' = ''cat''\<rparr>, \<lparr>start = 6, end' = 9, text' = ''cat''\<rparr>].
              \<bar>start c - start (position s)\<bar> < \<bar>start m - start (position s)\<bar>
              \<or> (\<bar>start c - start (position s)\<bar> = \<bar>start m - start (position s)\<bar> \<and> start c \<le> start m)"
    by blast
  from c n have "c = \<lparr>start = 0, end' = 3, text' = ''cat''\<rparr>"
    by (auto simp: s_def)
  with r have "reconcile ''cat x cat'' s = Some (Inr (Some \<lparr>start = 0, end' = 3\<rparr>))" by simp
  with a b e show ?thesis by (simp add: s_def)
qed

text \<open>
  Claim C2. For a suggestion with \<open>0 \<le> start < end \<le> length text\<close> whose \<open>original\<close> is
  the slice of the text at its span, accepting it succeeds: the new text is
  \<open>text[:start] + correction + text[end:]\<close> and the caret offset is
  \<open>start + length correction\<close>. (The accepted suggestion leaves the list.)
\<close>

theorem applyOne_exact_span:
  assumes "0 \<le> start (position s)"
    and "start (position s) < end' (position s)"
    and "end' (position s) \<le> int (length (content ed))"
    and "take (nat (end' (position s)) - nat (start (position s))) (drop (nat (start (position s))) (content ed))
         = original s"
  shows "handleAcceptSuggestion ed s =
     Some (Inr (SuggestionApplied (start (position s) + int (length (correction s))),
       ed\<lparr>content := take (nat (start (position s))) (content ed) @ correction s
                        @ drop (nat (end' (position s))) (content ed),
          suggestions := filter (\<lambda>x. id' x \<noteq> id' s) (suggestions ed)\<rparr>))"
proof -
  have "substring (content ed) (start (position s)) (end' (position s)) = original s"
    using assms by (simp add: substring_slice)
  then have r: "reconcile (content ed) s = Some (Inr (Some (position s)))"
    by (rule reconcile_exact)
  have sp: "replaceSpan (content ed) (start (position s)) (end' (position s)) (correction s)
      = take (nat (start (position s))) (content ed) @ correction s @ drop (nat (end' (position s))) (content ed)"
    using assms by (simp add: replaceSpan_slice)
  show ?thesis
    using assms(1-3) by (simp add: handleAcceptSuggestion_def r andThen_def sp)
qed

theorem applyOne_exact_span_witness:
  "handleAcceptSuggestion
     \<lparr>content = ''The qick fox'',
      suggestions = [\<lparr>id' = ''suggestion-1-0'', type' = JString ''spelling'', position = \<lparr>start = 4, end' = 8\<rparr>,
         original = ''qick'', correction = ''quick'', explanation = JString ''typo''\<rparr>]\<rparr>
     \<lparr>id' = ''suggestion-1-0'', type' = JString ''spelling'', position = \<lparr>start = 4, end' = 8\<rparr>,
         original = ''qick'', correction = ''quick'', explanation = JString ''typo''\<rparr>
   = Some (Inr (SuggestionApplied 9, \<lparr>content = ''The quick fox'', suggestions = []\<rparr>))"
  using applyOne_exact_span [of
     "\<lparr>id' = ''suggestion-1-0'', type' = JString ''spelling'', position = \<lparr>start = 4, end' = 8\<rparr>,
         original = ''qick'', correction = ''quick'', explanation = JString ''typo''\<rparr>"
     "\<lparr>content = ''The qick fox'',
      suggestions = [\<lparr>id' = ''suggestion-1-0'', type' = JString ''spelling'', position = \<lparr>start = 4, end' = 8\<rparr>,
         original = ''qick'', correction = ''quick'', explanation = JString ''typo''\<rparr>]\<rparr>"]
  by simp

lemma handleAcceptSuggestion_never_throws: "handleAcceptSuggestion ed s \<noteq> Some (Inl e)"
  using reconcile_never_throws [of "content ed" s]
  by (auto simp: handleAcceptSuggestion_def andThen_def Let_def split: option.splits sum.splits)

text \<open>
  The two error returns of \<open>handleAcceptSuggestion\<close> leave the editor as it was: a span out
  of bounds when the suggestion is accepted, and a suggestion whose \<open>original\<close> is not at its
  span, exactly or up to case and surrounding white space, when the locator returns the
  empty list. For an \<open>original\<close> that is not white space only the handler always returns.
\<close>

lemma handleAcceptSuggestion_out_of_bounds:
  "start (position s) < 0 \<or> end' (position s) > int (length (content ed))
     \<or> start (position s) \<ge> end' (position s)
   \<Longrightarrow> handleAcceptSuggestion ed s = Some (Inr (InvalidPosition, ed))"
  by (auto simp: handleAcceptSuggestion_def)

lemma handleAcceptSuggestion_no_match:
  assumes "0 \<le> start (position s)" and "start (position s) < end' (position s)"
    and "end' (position s) \<le> int (length (content ed))"
    and ne: "substring (content ed) (start (position s)) (end' (position s)) \<noteq> original s"
    and nf: "trim (toLowerCase (substring (content ed) (start (position s)) (end' (position s))))
            \<noteq> trim (toLowerCase (original s))"
    and r: "findWordBoundaries (content ed) (original s) (start (position s)) = Some (Inr [])"
  shows "handleAcceptSuggestion ed s = Some (Inr (TextChanged, ed))"
proof -
  from r have "findWordBoundaries (content ed) (original s) 0 = Some (Inr [])"
    by (simp add: findWordBoundaries_hint [of _ _ 0 "start (position s)"])
  then have "reconcile (content ed) s = Some (Inr None)"
    by (simp add: reconcile_relocate [OF ne nf])
  with assms(1-3) show ?thesis
    by (simp add: handleAcceptSuggestion_def andThen_def)
qed

lemma reconcile_returns:
  assumes "trim (toLowerCase (original s)) \<noteq> []"
  shows "\<exists>r. reconcile t s = Some (Inr r)"
proof -
  from findWordBoundaries_total [OF assms, of t 0] obtain ms
    where "findWordBoundaries t (original s) 0 = Some (Inr ms)" ..
  then show ?thesis
    by (cases ms) (simp_all add: reconcile_def andThen_def Let_def)
qed

lemma handleAcceptSuggestion_returns:
  assumes "trim (toLowerCase (original s)) \<noteq> []"
  shows "\<exists>r. handleAcceptSuggestion ed s = Some (Inr r)"
proof -
  from reconcile_returns [OF assms, of "content ed"] obtain r
    where "reconcile (content ed) s = Some (Inr r)" ..
  then show ?thesis
    by (cases r) (simp_all add: handleAcceptSuggestion_def andThen_def Let_def)
qed


section \<open>Accepting all suggestions\<close>

lemma sortedSuggestions_descending:
  "sorted_wrt (\<lambda>a b. start (position a) \<ge> start (position b)) (sortedSuggestions xs)"
proof -
  have "sorted (map (\<lambda>x. - start (position x)) (sortedSuggestions xs))"
    unfolding sortedSuggestions_def by (rule sorted_sort_key)
  then show ?thesis by (simp add: sorted_map)
qed

lemma sortedSuggestions_stable:
  "filter (\<lambda>x. start (position x) = k) (sortedSuggestions xs) = filter (\<lambda>x. start (position x) = k) xs"
  using sort_key_stable [of "\<lambda>x. - start (position x)" "- k" xs]
  by (simp add: sortedSuggestions_def)

declare applyEach.simps(2) [simp del]

lemma applyEach_skip:
  "findWordBoundaries c (original s) h = Some (Inr []) \<Longrightarrow>
   applyEach (s # ss) (c, n) = applyEach ss (c, n)"
  by (simp add: applyEach.simps(2) andThen_def findWordBoundaries_hint [of c "original s" 0 h])

lemma applyEach_apply:
  "findWordBoundaries c (original s) h = Some (Inr (m0 # ms)) \<Longrightarrow>
   applyEach (s # ss) (c, n) =
     applyEach ss (replaceSpan c (start (closestMatch (start (position s)) m0 ms))
                     (end' (closestMatch (start (position s)) m0 ms)) (correction s), Suc n)"
  by (simp add: applyEach.simps(2) andThen_def Let_def findWordBoundaries_hint [of c "original s" 0 h])

lemma applyEach_count:
  "applyEach ss (c, n) = Some (Inr (c', n')) \<Longrightarrow> n \<le> n' \<and> n' \<le> n + length ss"
proof (induction ss arbitrary: c n)
  case Nil
  then show ?case by simp
next
  case (Cons s ss)
  show ?case
  proof (cases rule: findWordBoundaries_cases [of c "original s" 0])
    case diverges
    with Cons.prems show ?thesis by (simp add: applyEach.simps(2) andThen_def)
  next
    case (returns ms)
    show ?thesis
    proof (cases ms)
      case Nil
      with returns Cons.prems have "applyEach ss (c, n) = Some (Inr (c', n'))"
        by (simp add: applyEach_skip)
      from Cons.IH [OF this] show ?thesis by simp
    next
      case (Cons m0 rest)
      with returns Cons.prems obtain c2 where "applyEach ss (c2, Suc n) = Some (Inr (c', n'))"
        by (simp add: applyEach_apply)
      from Cons.IH [OF this] show ?thesis by simp
    qed
  qed
qed

lemma applyEach_never_returns:
  "findWordBoundaries c (original s) h = None \<Longrightarrow> applyEach (s # ss) (c, n) = None"
  by (simp add: applyEach.simps(2) andThen_def findWordBoundaries_hint [of c "original s" 0 h])

lemma applyEach_returns:
  "\<forall>s\<in>set ss. trim (toLowerCase (original s)) \<noteq> []
   \<Longrightarrow> \<exists>c' n'. applyEach ss (c, n) = Some (Inr (c', n'))"
proof (induction ss arbitrary: c n)
  case Nil
  then show ?case by simp
next
  case (Cons s ss)
  then have "trim (toLowerCase (original s)) \<noteq> []" by simp
  from findWordBoundaries_total [OF this, of c 0] obtain ms
    where ms: "findWordBoundaries c (original s) 0 = Some (Inr ms)" ..
  from Cons have ih: "\<And>c n. \<exists>c' n'. applyEach ss (c, n) = Some (Inr (c', n'))" by simp
  show ?case
  proof (cases ms)
    case Nil
    with ms ih [of c n] show ?thesis by (simp add: applyEach_skip)
  next
    case (Cons m0 rest)
    with ms show ?thesis by (simp add: applyEach_apply ih)
  qed
qed

text \<open>
  \<open>handleAcceptAllSuggestions\<close> sorts the suggestions by descending start offset (a
  permutation of the list) and runs them through the loop in that order, each on the text
  the earlier ones left. When no \<open>original\<close> is white space only, the loop returns, with a
  count that is at most the number of suggestions and decides between the two toasts. For
  the text \<open>a b c\<close> with \<open>a\<close> to \<open>aa\<close> at \<open>[0, 1)\<close> and \<open>c\<close> to \<open>cc\<close> at \<open>[4, 5)\<close> the new
  text is \<open>aa b cc\<close> and the count is 2.
\<close>

lemma handleAcceptAllSuggestions_returns:
  assumes "suggestions ed \<noteq> []"
    and "\<forall>s\<in>set (suggestions ed). trim (toLowerCase (original s)) \<noteq> []"
  shows "\<exists>newContent appliedCount.
     applyEach (sortedSuggestions (suggestions ed)) (content ed, 0) = Some (Inr (newContent, appliedCount))
     \<and> appliedCount \<le> length (suggestions ed)
     \<and> handleAcceptAllSuggestions ed =
         Some (Inr (if appliedCount > 0
                    then (AllApplied appliedCount, ed\<lparr>content := newContent, suggestions := []\<rparr>)
                    else (NoneApplied, ed)))"
proof -
  from assms(2) have "\<forall>s\<in>set (sortedSuggestions (suggestions ed)). trim (toLowerCase (original s)) \<noteq> []"
    by (simp add: sortedSuggestions_def)
  from applyEach_returns [OF this, of "content ed" 0] obtain newContent appliedCount
    where r: "applyEach (sortedSuggestions (suggestions ed)) (content ed, 0) = Some (Inr (newContent, appliedCount))"
    by blast
  from applyEach_count [OF r] have "appliedCount \<le> length (suggestions ed)"
    by (simp add: sortedSuggestions_def)
  moreover from assms(1) r have "handleAcceptAllSuggestions ed =
         Some (Inr (if appliedCount > 0
                    then (AllApplied appliedCount, ed\<lparr>content := newContent, suggestions := []\<rparr>)
                    else (NoneApplied, ed)))"
    by (simp add: handleAcceptAllSuggestions_def andThen_def)
  ultimately show ?thesis using r by blast
qed

lemma handleAcceptAllSuggestions_example:
  "handleAcceptAllSuggestions
        \<lparr>content = ''a b c'',
         suggestions =
           [\<lparr>id' = ''suggestion-1-0'', type' = JString ''style'', position = \<lparr>start = 0, end' = 1\<rparr>,
              original = ''a'', correction = ''aa'', explanation = JString ''first''\<rparr>,
            \<lparr>id' = ''suggestion-1-1'', type' = JString ''style'', position = \<lparr>start = 4, end' = 5\<rparr>,
              original = ''c'', correction = ''cc'', explanation = JString ''second''\<rparr>]\<rparr>
       = Some (Inr (AllApplied 2, \<lparr>content = ''aa b cc'', suggestions = []\<rparr>))"
  by code_simp


text \<open>
  Claim C9, as the code has it. In the loop of \<open>handleAcceptAllSuggestions\<close> a suggestion is
  resolved against the current text by the locator alone: the text at the stated span is
  not compared with \<open>original\<close>, and the bounds of the span are not checked. For an
  \<open>original\<close> that is not white space only the locator returns; with no match the
  suggestion is skipped and not counted, else the loop goes on with the text in which
  \<open>correction\<close> stands for the slice of one of the matches, the one whose start is nearest
  to \<open>span.start\<close>, the smaller start offset on a tie. This is what reconciliation returns
  for the same text and suggestion whenever reconciliation gets to its relocate tier, that
  is, whenever the text at the stated span is \<open>original\<close> neither exactly nor up to case
  and surrounding white space (with an \<open>original\<close> of white space only, neither returns).
\<close>

theorem applyAll_resolves_by_locator_only:
  "(trim (toLowerCase (original s)) \<noteq> [] \<longrightarrow>
      (\<exists>ms. findWordBoundaries text (original s) (start (position s)) = Some (Inr ms)
         \<and> (ms = [] \<longrightarrow> applyEach (s # ss) (text, n) = applyEach ss (text, n))
         \<and> (ms \<noteq> [] \<longrightarrow>
              (\<exists>c\<in>set ms.
                 applyEach (s # ss) (text, n)
                   = applyEach ss
                       (take (nat (start c)) text @ correction s @ drop (nat (end' c)) text, Suc n)
                 \<and> (\<forall>m\<in>set ms.
                       \<bar>start c - start (position s)\<bar> < \<bar>start m - start (position s)\<bar>
                       \<or> (\<bar>start c - start (position s)\<bar> = \<bar>start m - start (position s)\<bar>
                           \<and> start c \<le> start m))))))
   \<and> (substring text (start (position s)) (end' (position s)) \<noteq> original s
      \<longrightarrow> trim (toLowerCase (substring text (start (position s)) (end' (position s))))
            \<noteq> trim (toLowerCase (original s))
      \<longrightarrow> (case reconcile text s of
             None \<Rightarrow> applyEach [s] (text, n) = None
           | Some (Inl e) \<Rightarrow> applyEach [s] (text, n) = Some (Inl e)
           | Some (Inr None) \<Rightarrow> applyEach [s] (text, n) = Some (Inr (text, n))
           | Some (Inr (Some p)) \<Rightarrow>
               applyEach [s] (text, n)
               = Some (Inr (take (nat (start p)) text @ correction s @ drop (nat (end' p)) text,
                            Suc n))))"
proof (intro conjI impI)
  assume "trim (toLowerCase (original s)) \<noteq> []"
  from findWordBoundaries_total [OF this, of "text" "start (position s)"] obtain ms
    where r: "findWordBoundaries text (original s) (start (position s)) = Some (Inr ms)" ..
  have skip: "ms = [] \<longrightarrow> applyEach (s # ss) (text, n) = applyEach ss (text, n)"
    using r by (auto simp: applyEach_skip)
  have "\<exists>c\<in>set ms.
          applyEach (s # ss) (text, n)
            = applyEach ss (take (nat (start c)) text @ correction s @ drop (nat (end' c)) text, Suc n)
          \<and> (\<forall>m\<in>set ms.
                \<bar>start c - start (position s)\<bar> < \<bar>start m - start (position s)\<bar>
                \<or> (\<bar>start c - start (position s)\<bar> = \<bar>start m - start (position s)\<bar>
                    \<and> start c \<le> start m))" if "ms \<noteq> []"
  proof -
    from that obtain m0 rest where ms: "ms = m0 # rest" by (cases ms) auto
    define c where "c = closestMatch (start (position s)) m0 rest"
    from findWordBoundaries_sorted [OF r]
    have "sorted_wrt (\<lambda>a b. start a \<le> start b) (m0 # rest)"
      unfolding ms by (rule sorted_wrt_mono_rel [rotated]) simp
    from closestMatch_nearest [OF this, of "start (position s)"]
    have c: "c \<in> set ms" and n: "\<forall>m\<in>set ms. nearer (start (position s)) c m"
      by (simp_all add: c_def ms)
    from findWordBoundaries_mem [OF r c] have "0 \<le> start c" "0 \<le> end' c" by auto
    then have "replaceSpan text (start c) (end' c) (correction s)
        = take (nat (start c)) text @ correction s @ drop (nat (end' c)) text"
      by (rule replaceSpan_slice)
    with r have "applyEach (s # ss) (text, n)
        = applyEach ss (take (nat (start c)) text @ correction s @ drop (nat (end' c)) text, Suc n)"
      by (simp add: applyEach_apply ms c_def)
    with c n show ?thesis unfolding nearer_def by blast
  qed
  with r skip show "\<exists>ms. findWordBoundaries text (original s) (start (position s)) = Some (Inr ms)
         \<and> (ms = [] \<longrightarrow> applyEach (s # ss) (text, n) = applyEach ss (text, n))
         \<and> (ms \<noteq> [] \<longrightarrow>
              (\<exists>c\<in>set ms.
                 applyEach (s # ss) (text, n)
                   = applyEach ss
                       (take (nat (start c)) text @ correction s @ drop (nat (end' c)) text, Suc n)
                 \<and> (\<forall>m\<in>set ms.
                       \<bar>start c - start (position s)\<bar> < \<bar>start m - start (position s)\<bar>
                       \<or> (\<bar>start c - start (position s)\<bar> = \<bar>start m - start (position s)\<bar>
                           \<and> start c \<le> start m))))"
    by blast
next
  assume ne: "substring text (start (position s)) (end' (position s)) \<noteq> original s"
    and nf: "trim (toLowerCase (substring text (start (position s)) (end' (position s))))
            \<noteq> trim (toLowerCase (original s))"
  show "case reconcile text s of
             None \<Rightarrow> applyEach [s] (text, n) = None
           | Some (Inl e) \<Rightarrow> applyEach [s] (text, n) = Some (Inl e)
           | Some (Inr None) \<Rightarrow> applyEach [s] (text, n) = Some (Inr (text, n))
           | Some (Inr (Some p)) \<Rightarrow>
               applyEach [s] (text, n)
               = Some (Inr (take (nat (start p)) text @ correction s @ drop (nat (end' p)) text,
                            Suc n))"
  proof (cases rule: findWordBoundaries_cases [of "text" "original s" 0])
    case diverges
    then show ?thesis by (simp add: reconcile_relocate [OF ne nf] applyEach_never_returns)
  next
    case (returns ms)
    show ?thesis
    proof (cases ms)
      case Nil
      with returns show ?thesis by (simp add: reconcile_relocate [OF ne nf] applyEach_skip)
    next
      case (Cons m0 rest)
      define c where "c = closestMatch (start (position s)) m0 rest"
      have "c \<in> set ms" unfolding c_def Cons by (rule closestMatch_mem)
      from findWordBoundaries_mem [OF returns this] have "0 \<le> start c" "0 \<le> end' c" by auto
      then have "replaceSpan text (start c) (end' c) (correction s)
          = take (nat (start c)) text @ correction s @ drop (nat (end' c)) text"
        by (rule replaceSpan_slice)
      with returns Cons show ?thesis
        by (simp add: reconcile_relocate [OF ne nf] applyEach_apply c_def)
    qed
  qed
qed

theorem applyAll_resolves_by_locator_only_witness:
  "trim (toLowerCase ''cat'') \<noteq> []
   \<and> findWordBoundaries ''cat x cat'' ''cat'' 5
       = Some (Inr [\<lparr>start = 0, end' = 3, text' = ''cat''\<rparr>, \<lparr>start = 6, end' = 9, text' = ''cat''\<rparr>])
   \<and> applyEach
        [\<lparr>id' = ''suggestion-1-0'', type' = JString ''spelling'', position = \<lparr>start = 5, end' = 8\<rparr>,
          original = ''cat'', correction = ''dog'', explanation = JString ''pet''\<rparr>] (''cat x cat'', 0)
       = Some (Inr (''cat x dog'', 1))
   \<and> substring ''cat x cat'' 5 8 \<noteq> ''cat''
   \<and> trim (toLowerCase (substring ''cat x cat'' 5 8)) \<noteq> trim (toLowerCase ''cat'')
   \<and> reconcile ''cat x cat''
        \<lparr>id' = ''suggestion-1-0'', type' = JString ''spelling'', position = \<lparr>start = 5, end' = 8\<rparr>,
         original = ''cat'', correction = ''dog'', explanation = JString ''pet''\<rparr>
       = Some (Inr (Some \<lparr>start = 6, end' = 9\<rparr>))"
proof -
  define s where "s = \<lparr>id' = ''suggestion-1-0'', type' = JString ''spelling'',
    position = \<lparr>start = 5, end' = 8\<rparr>, original = ''cat'', correction = ''dog'', explanation = JString ''pet''\<rparr>"
  define m1 where "m1 = \<lparr>start = 0, end' = 3, text' = ''cat''\<rparr>"
  define m2 where "m2 = \<lparr>start = 6, end' = 9, text' = ''cat''\<rparr>"
  have t: "trim (toLowerCase (original s)) \<noteq> []"
    unfolding s_def by code_simp
  have e: "findWordBoundaries ''cat x cat'' (original s) (start (position s)) = Some (Inr [m1, m2])"
    unfolding s_def m1_def m2_def by code_simp
  have a: "substring ''cat x cat'' (start (position s)) (end' (position s)) \<noteq> original s"
    unfolding s_def by code_simp
  have b: "trim (toLowerCase (substring ''cat x cat'' (start (position s)) (end' (position s))))
      \<noteq> trim (toLowerCase (original s))"
    unfolding s_def by code_simp
  have r: "reconcile ''cat x cat'' s = Some (Inr (Some \<lparr>start = 6, end' = 9\<rparr>))"
    unfolding s_def by code_simp
  note w = applyAll_resolves_by_locator_only [of s "''cat x cat''" "[]" 0]
  from w [THEN conjunct1, THEN mp, OF t] e
  obtain c where c: "c \<in> set [m1, m2]"
    and ap: "applyEach [s] (''cat x cat'', 0)
        = applyEach [] (take (nat (start c)) ''cat x cat'' @ correction s @ drop (nat (end' c)) ''cat x cat'', Suc 0)"
    and n: "\<forall>m\<in>set [m1, m2].
              \<bar>start c - start (position s)\<bar> < \<bar>start m - start (position s)\<bar>
              \<or> (\<bar>start c - start (position s)\<bar> = \<bar>start m - start (position s)\<bar> \<and> start c \<le> start m)"
    by auto
  from c n have "c = m2"
    by (auto simp: s_def m1_def m2_def)
  with ap have ap': "applyEach [s] (''cat x cat'', 0) = Some (Inr (''cat x dog'', 1))"
    by (simp add: m2_def s_def)
  from w [THEN conjunct2, THEN mp, OF a, THEN mp, OF b]
  have "applyEach [s] (''cat x cat'', 0)
      = Some (Inr (take (nat 6) ''cat x cat'' @ correction s @ drop (nat 9) ''cat x cat'', Suc 0))"
    by (simp add: r)
  with t e a b r ap' show ?thesis by (simp add: s_def m1_def m2_def)
qed


text \<open>
  Against C9 as stated: in \<open>concat cat\<close> the span \<open>[3, 6)\<close> holds \<open>cat\<close> exactly, so
  reconciliation returns it (and accepting the one suggestion gives \<open>condog cat\<close>), while
  the loop of accept-all splices the only match the locator finds, \<open>[7, 10)\<close>.
\<close>

theorem applyAll_skips_span_tiers_counterexample:
  "reconcile ''concat cat''
        \<lparr>id' = ''suggestion-1-0'', type' = JString ''spelling'', position = \<lparr>start = 3, end' = 6\<rparr>,
         original = ''cat'', correction = ''dog'', explanation = JString ''pet''\<rparr>
       = Some (Inr (Some \<lparr>start = 3, end' = 6\<rparr>))
   \<and> replaceSpan ''concat cat'' 3 6 ''dog'' = ''condog cat''
   \<and> applyEach
        [\<lparr>id' = ''suggestion-1-0'', type' = JString ''spelling'', position = \<lparr>start = 3, end' = 6\<rparr>,
          original = ''cat'', correction = ''dog'', explanation = JString ''pet''\<rparr>] (''concat cat'', 0)
       = Some (Inr (''concat dog'', 1))
   \<and> replaceSpan ''concat cat'' 7 10 ''dog'' = ''concat dog''"
  by code_simp

section \<open>The suggestions kept by the check-text function\<close>

lemma truthy_iff:
  "truthy v \<longleftrightarrow> v \<noteq> JUndefined \<and> v \<noteq> JNull \<and> v \<noteq> JBoolean False \<and> v \<noteq> JNumber 0 \<and> v \<noteq> JString []"
  by (cases v) (auto simp: truthy_def)

lemma validateSuggestion_SomeD:
  assumes "validateSuggestion t r = Inr (Some y)"
  shows "\<exists>x orig corr p a b. r = RawObject x
    \<and> raw_original x = JString orig \<and> raw_correction x = JString corr
    \<and> raw_original y = JString orig \<and> raw_correction y = JString corr
    \<and> raw_type y = raw_type x \<and> raw_explanation y = raw_explanation x
    \<and> trim (toLowerCase orig) \<noteq> trim (toLowerCase corr)
    \<and> raw_position y = Some p \<and> raw_start p = Some a \<and> raw_end p = Some b"
proof (cases r)
  case RawNull
  with assms show ?thesis by (simp add: validateSuggestion_def)
next
  case RawPrimitive
  with assms show ?thesis by (simp add: validateSuggestion_def)
next
  case (RawObject x)
  with assms obtain p where p: "raw_position x = Some p"
    by (cases "raw_position x") (simp_all add: validateSuggestion_def)
  from assms RawObject p obtain a b where ab: "raw_start p = Some a" "raw_end p = Some b"
    by (cases "raw_start p"; cases "raw_end p") (simp_all add: validateSuggestion_def)
  from assms RawObject p ab obtain orig where o: "raw_original x = JString orig"
    by (cases "raw_original x") (simp_all add: validateSuggestion_def split: if_splits)
  from assms RawObject p ab o obtain corr where c: "raw_correction x = JString corr"
    by (cases "raw_correction x")
       (simp_all add: validateSuggestion_def Let_def split: if_splits option.splits)
  from assms RawObject p ab o c show ?thesis
    by (auto simp: validateSuggestion_def Let_def split: if_splits option.splits)
qed

lemma validateSuggestion_out_of_range:
  assumes "raw_position x = Some p" and "raw_start p = Some a" and "raw_end p = Some b"
    and "a < 0 \<or> int (length t) < b \<or> b \<le> a"
  shows "validateSuggestion t (RawObject x) = Inr None"
  using assms by (auto simp: validateSuggestion_def)

lemma validateSuggestion_equal:
  assumes "raw_original x = JString orig" and "raw_correction x = JString corr"
    and "trim (toLowerCase orig) = trim (toLowerCase corr)"
  shows "validateSuggestion t (RawObject x) = Inr None"
  using assms
  by (simp add: validateSuggestion_def Let_def split: option.splits prod.splits)

lemma validateSuggestion_kept:
  assumes "raw_position x = Some p" and "raw_start p = Some a" and "raw_end p = Some b"
    and "0 \<le> a" and "a < b" and "b \<le> int (length t)"
    and "truthy (raw_type x)" and "truthy (raw_explanation x)"
    and "raw_original x = JString orig" and "raw_correction x = JString corr"
    and "orig \<noteq> []" and "corr \<noteq> []"
    and "trim (toLowerCase (substring t a b)) = trim (toLowerCase orig)"
    and "trim (toLowerCase orig) \<noteq> trim (toLowerCase corr)"
  shows "validateSuggestion t (RawObject x) = Inr (Some x)"
  using assms by (simp add: validateSuggestion_def Let_def truthy_def)

lemma validateAll_remove:
  "validateSuggestion t r = Inr None \<Longrightarrow> validateAll t (xs @ r # ys) = validateAll t (xs @ ys)"
  by (induction xs) (simp_all split: sum.splits)

lemma validateAll_set:
  "validateAll t rs = Inr ks \<Longrightarrow> y \<in> set ks \<Longrightarrow> \<exists>r\<in>set rs. validateSuggestion t r = Inr (Some y)"
proof (induction rs arbitrary: ks)
  case Nil
  then show ?case by simp
next
  case (Cons r rs)
  then show ?case
    by (auto split: sum.splits option.splits)
qed

lemma removeDuplicatePositions_subset: "set (removeDuplicatePositions e xs) \<subseteq> set xs"
  by (induction xs arbitrary: e) auto

lemma validatedSuggestions_sound:
  assumes "y \<in> set (validatedSuggestions t rs)"
  shows "\<exists>r\<in>set rs. validateSuggestion t r = Inr (Some y)"
proof (cases "validateAll t rs")
  case (Inl e)
  with assms show ?thesis by (simp add: validatedSuggestions_def)
next
  case (Inr ks)
  with assms have "y \<in> set (removeDuplicatePositions [] ks)"
    by (simp add: validatedSuggestions_def)
  with removeDuplicatePositions_subset have "y \<in> set ks" by blast
  with Inr show ?thesis by (rule validateAll_set)
qed

lemma validatedSuggestions_remove:
  "validateSuggestion t r = Inr None
   \<Longrightarrow> validatedSuggestions t (xs @ r # ys) = validatedSuggestions t (xs @ ys)"
  by (simp add: validatedSuggestions_def validateAll_remove)

lemma checkText_remove:
  "validateSuggestion t r = Inr None
   \<Longrightarrow> checkText t (xs @ r # ys) now = checkText t (xs @ ys) now"
  by (simp add: checkText_def validatedSuggestions_remove)

section \<open>The suggestions kept by \<open>checkText\<close>\<close>

lemma sameTriple_trans: "sameTriple a b \<Longrightarrow> sameTriple b c \<Longrightarrow> sameTriple a c"
  by (auto simp: sameTriple_def strictEquals_def)

lemma sameTriple_same:
  "sameTriple a b \<Longrightarrow> position a = position b \<and> original a = original b"
  by (cases "position a"; cases "position b") (auto simp: sameTriple_def strictEquals_def)

lemma removeDuplicates_subset: "set (removeDuplicates e xs) \<subseteq> set xs"
  by (induction xs arbitrary: e) auto

lemma removeDuplicates_complete:
  "s \<in> set xs \<Longrightarrow>
   (\<exists>p\<in>set e. sameTriple p s)
   \<or> (\<exists>s'\<in>set (removeDuplicates e xs). position s' = position s \<and> original s' = original s)"
proof (induction xs arbitrary: e)
  case Nil
  then show ?case by simp
next
  case (Cons x xs)
  show ?case
  proof (cases "s = x")
    case True
    then show ?thesis
      by (auto simp: list_ex_iff)
  next
    case False
    with Cons.prems have "s \<in> set xs" by simp
    from Cons.IH [OF this, of "e @ [x]"]
    consider (old) "\<exists>p\<in>set e. sameTriple p s" | (new) "sameTriple x s"
      | (later) "\<exists>s'\<in>set (removeDuplicates (e @ [x]) xs). position s' = position s \<and> original s' = original s"
      by auto
    then show ?thesis
    proof cases
      case old
      then show ?thesis by simp
    next
      case new
      show ?thesis
      proof (cases "list_ex (\<lambda>p. sameTriple p x) e")
        case True
        then obtain q where "q \<in> set e" "sameTriple q x" by (auto simp: list_ex_iff)
        with new have "\<exists>p\<in>set e. sameTriple p s" by (blast intro: sameTriple_trans)
        then show ?thesis by simp
      next
        case False
        with sameTriple_same [OF new] show ?thesis by auto
      qed
    next
      case later
      then show ?thesis by auto
    qed
  qed
qed

lemma keeps_RawObjectD:
  assumes "keeps t r"
  obtains x p a b where "r = RawObject x" "raw_position x = Some p"
    "raw_start p = Some a" "raw_end p = Some b" "0 \<le> a" "a < b" "b \<le> int (length t)"
    "truthy (raw_original x)" "truthy (raw_correction x)" "truthy (raw_explanation x)"
    "\<not> strictEquals (raw_original x) (raw_correction x)"
  using assms
  by (auto simp: keeps_def split: raw.splits option.splits)

lemma withId_kept:
  assumes "raw_position x = Some p" and "raw_start p = Some a" and "raw_end p = Some b"
    and "0 \<le> a" and "a < b" and "b \<le> int (length t)"
  shows "withId t now (RawObject x, i) =
     [\<lparr>id' = ''suggestion-'' @ decimal (now i) @ ''-'' @ decimal i, type' = raw_type x,
       position = \<lparr>start = a, end' = b\<rparr>, original = raw_original x,
       correction = raw_correction x, explanation = raw_explanation x\<rparr>]"
proof -
  from assms have "max 0 (min a (int (length t))) = a" "max 0 (min b (int (length t))) = b" by simp_all
  with assms show ?thesis by (simp add: withId_def)
qed

lemma mapped_set:
  "set (concat (map (withId t now) (zip kept [0 ..< length kept])))
   = (\<Union>i\<in>{..<length kept}. set (withId t now (kept ! i, i)))"
proof -
  have "zip kept [0 ..< length kept] = map (\<lambda>i. (kept ! i, i)) [0 ..< length kept]"
    by (rule nth_equalityI) simp_all
  then show ?thesis by (auto simp del: upt_Suc)
qed

lemma set_suggestionsWithIds_subset:
  "set (suggestionsWithIds raws t now)
   \<subseteq> (\<Union>i\<in>{..<length (filter (keeps t) raws)}. set (withId t now (filter (keeps t) raws ! i, i)))"
proof -
  let ?mapped = "concat (map (withId t now)
      (zip (filter (keeps t) raws) [0 ..< length (filter (keeps t) raws)]))"
  have "set (suggestionsWithIds raws t now) = set (removeDuplicates [] ?mapped)"
    by (simp add: suggestionsWithIds_def Let_def)
  also have "\<dots> \<subseteq> set ?mapped" by (rule removeDuplicates_subset)
  finally show ?thesis by (simp only: mapped_set)
qed

lemma suggestionsWithIds_sound:
  assumes "s \<in> set (suggestionsWithIds raws t now)"
  shows "\<exists>x p. RawObject x \<in> set raws \<and> keeps t (RawObject x) \<and> raw_position x = Some p
           \<and> raw_start p = Some (start (position s)) \<and> raw_end p = Some (end' (position s))
           \<and> 0 \<le> start (position s) \<and> start (position s) < end' (position s)
           \<and> end' (position s) \<le> int (length t)
           \<and> raw_original x = original s \<and> raw_correction x = correction s
           \<and> raw_explanation x = explanation s \<and> raw_type x = type' s"
proof -
  let ?kept = "filter (keeps t) raws"
  from assms set_suggestionsWithIds_subset [of raws t now]
  obtain i where i: "i < length ?kept" and s: "s \<in> set (withId t now (?kept ! i, i))" by auto
  from i have mem: "?kept ! i \<in> set ?kept" by (rule nth_mem)
  then have k: "keeps t (?kept ! i)" and r: "?kept ! i \<in> set raws" by simp_all
  from k obtain x p a b where x: "?kept ! i = RawObject x" "raw_position x = Some p"
    "raw_start p = Some a" "raw_end p = Some b" "0 \<le> a" "a < b" "b \<le> int (length t)"
    by (rule keeps_RawObjectD)
  from k x(1) have kx: "keeps t (RawObject x)" by simp
  from s withId_kept [OF x(2-7), of now i] x(1)
  have "s = \<lparr>id' = ''suggestion-'' @ decimal (now i) @ ''-'' @ decimal i, type' = raw_type x,
       position = \<lparr>start = a, end' = b\<rparr>, original = raw_original x,
       correction = raw_correction x, explanation = raw_explanation x\<rparr>"
    by simp
  with x r kx show ?thesis by (intro exI [of _ x] exI [of _ p]) simp
qed

lemma suggestionsWithIds_complete:
  assumes "RawObject x \<in> set raws" and "keeps t (RawObject x)"
  shows "\<exists>s\<in>set (suggestionsWithIds raws t now). \<exists>p. raw_position x = Some p
           \<and> raw_start p = Some (start (position s)) \<and> raw_end p = Some (end' (position s))
           \<and> raw_original x = original s"
proof -
  let ?kept = "filter (keeps t) raws"
  let ?mapped = "concat (map (withId t now) (zip ?kept [0 ..< length ?kept]))"
  from assms have "RawObject x \<in> set ?kept" by simp
  then obtain i where i: "i < length ?kept" and xi: "?kept ! i = RawObject x"
    unfolding in_set_conv_nth by blast
  from assms(2) obtain p a b where x: "raw_position x = Some p"
    "raw_start p = Some a" "raw_end p = Some b" "0 \<le> a" "a < b" "b \<le> int (length t)"
    by (rule keeps_RawObjectD) auto
  define s0 :: stored where "s0 = \<lparr>id' = ''suggestion-'' @ decimal (now i) @ ''-'' @ decimal i, type' = raw_type x,
       position = \<lparr>start = a, end' = b\<rparr>, original = raw_original x,
       correction = raw_correction x, explanation = raw_explanation x\<rparr>"
  from withId_kept [OF x, of now i] have "s0 \<in> set (withId t now (?kept ! i, i))"
    by (simp add: xi s0_def)
  with i have "s0 \<in> (\<Union>i\<in>{..<length ?kept}. set (withId t now (?kept ! i, i)))" by blast
  then have "s0 \<in> set ?mapped" by (simp only: mapped_set)
  from removeDuplicates_complete [OF this, of "[]"]
  obtain s' where s': "s' \<in> set (removeDuplicates [] ?mapped)"
    and st: "position s' = position s0" "original s' = original s0" by auto
  from s' have "s' \<in> set (suggestionsWithIds raws t now)"
    by (simp add: suggestionsWithIds_def Let_def)
  moreover from st x have "raw_position x = Some p
           \<and> raw_start p = Some (start (position s')) \<and> raw_end p = Some (end' (position s'))
           \<and> raw_original x = original s'"
    by (simp add: s0_def)
  ultimately show ?thesis by blast
qed

lemma suggestionsWithIds_remove:
  "\<not> keeps t r \<Longrightarrow> suggestionsWithIds (xs @ r # ys) t now = suggestionsWithIds (xs @ ys) t now"
  by (simp add: suggestionsWithIds_def)

lemma checkText_sound:
  assumes "s \<in> set (checkText t reply now)"
  shows "\<exists>x orig corr. x \<in> set (validatedSuggestions t reply) \<and> keeps t (RawObject x)
           \<and> original s = JString orig \<and> correction s = JString corr
           \<and> raw_original x = JString orig \<and> raw_correction x = JString corr
           \<and> trim (toLowerCase orig) \<noteq> trim (toLowerCase corr)
           \<and> 0 \<le> start (position s) \<and> start (position s) < end' (position s)
           \<and> end' (position s) \<le> int (length t)"
proof -
  from assms have "s \<in> set (suggestionsWithIds (map RawObject (validatedSuggestions t reply)) t now)"
    by (simp add: checkText_def split: if_splits)
  from suggestionsWithIds_sound [OF this] obtain x where x: "x \<in> set (validatedSuggestions t reply)"
    "keeps t (RawObject x)" "raw_original x = original s" "raw_correction x = correction s"
    "0 \<le> start (position s)" "start (position s) < end' (position s)"
    "end' (position s) \<le> int (length t)"
    by auto
  from validatedSuggestions_sound [OF x(1)] obtain r where "validateSuggestion t r = Inr (Some x)" by blast
  from validateSuggestion_SomeD [OF this] obtain orig corr where
    "raw_original x = JString orig" "raw_correction x = JString corr"
    "trim (toLowerCase orig) \<noteq> trim (toLowerCase corr)" by blast
  with x show ?thesis by (intro exI [of _ x] exI [of _ orig] exI [of _ corr]) simp
qed

text \<open>
  In every suggestion that \<open>checkText\<close> stores, \<open>original\<close> and \<open>correction\<close> are strings:
  the check-text function replies no other, so the suggestions that reach the handlers
  are those of type \<open>suggestion\<close>.
\<close>

lemma checkText_stores_strings:
  "s \<in> set (checkText t reply now) \<Longrightarrow> asSuggestion s \<noteq> None"
  using checkText_sound [of s t reply now] by (auto simp: asSuggestion_def)

text \<open>
  Claim C7, as the code has it. \<open>checkText\<close> rejects a suggestion out of range; it does not
  clamp it. Every suggestion it keeps has \<open>0 \<le> start < end \<le> length text\<close>, which is the
  span of an element of the reply, with that element's \<open>original\<close> and \<open>correction\<close>: the
  clamping in the \<open>map\<close> changes nothing. An element of the reply whose start is negative,
  whose end is beyond the length of the text or whose start is not below its end can be
  taken out of the reply without changing the result, in \<open>checkText\<close>'s own filter and in
  the whole of the validation with the check-text function before it. In the other
  direction, \<open>checkText\<close>'s filter keeps every element whose span has
  \<open>0 \<le> start < end \<le> length text\<close>, whose \<open>original\<close>, \<open>correction\<close> and \<open>explanation\<close> are
  none of \<open>undefined\<close>, \<open>null\<close>, \<open>false\<close>, \<open>0\<close> and the empty string, and whose \<open>original\<close>
  is not its \<open>correction\<close>: the result has a suggestion with this span and \<open>original\<close>
  (the element itself, or an earlier duplicate).
\<close>

theorem validator_rejects_out_of_range_spans:
  "(\<forall>s\<in>set (suggestionsWithIds raws text now).
        0 \<le> start (position s) \<and> start (position s) < end' (position s)
        \<and> end' (position s) \<le> int (length text)
        \<and> (\<exists>x p. RawObject x \<in> set raws \<and> raw_position x = Some p
              \<and> raw_start p = Some (start (position s)) \<and> raw_end p = Some (end' (position s))
              \<and> raw_original x = original s \<and> raw_correction x = correction s))
   \<and> (\<forall>x p a b xs ys. raw_position x = Some p \<longrightarrow> raw_start p = Some a \<longrightarrow> raw_end p = Some b
        \<longrightarrow> a < 0 \<or> int (length text) < b \<or> b \<le> a
        \<longrightarrow> suggestionsWithIds (xs @ RawObject x # ys) text now = suggestionsWithIds (xs @ ys) text now)
   \<and> (\<forall>x p a b xs ys. raw_position x = Some p \<longrightarrow> raw_start p = Some a \<longrightarrow> raw_end p = Some b
        \<longrightarrow> a < 0 \<or> int (length text) < b \<or> b \<le> a
        \<longrightarrow> checkText text (xs @ RawObject x # ys) now = checkText text (xs @ ys) now)
   \<and> (\<forall>x p a b. RawObject x \<in> set raws
        \<longrightarrow> raw_position x = Some p \<longrightarrow> raw_start p = Some a \<longrightarrow> raw_end p = Some b
        \<longrightarrow> 0 \<le> a \<longrightarrow> a < b \<longrightarrow> b \<le> int (length text)
        \<longrightarrow> raw_original x \<notin> {JUndefined, JNull, JBoolean False, JNumber 0, JString []}
        \<longrightarrow> raw_correction x \<notin> {JUndefined, JNull, JBoolean False, JNumber 0, JString []}
        \<longrightarrow> raw_explanation x \<notin> {JUndefined, JNull, JBoolean False, JNumber 0, JString []}
        \<longrightarrow> raw_original x \<noteq> raw_correction x
        \<longrightarrow> (\<exists>s\<in>set (suggestionsWithIds raws text now).
               start (position s) = a \<and> end' (position s) = b \<and> original s = raw_original x))"
proof (intro conjI ballI allI impI)
  fix s assume s: "s \<in> set (suggestionsWithIds raws text now)"
  from suggestionsWithIds_sound [OF s]
  show "0 \<le> start (position s)" "start (position s) < end' (position s)"
    "end' (position s) \<le> int (length text)"
    "\<exists>x p. RawObject x \<in> set raws \<and> raw_position x = Some p
              \<and> raw_start p = Some (start (position s)) \<and> raw_end p = Some (end' (position s))
              \<and> raw_original x = original s \<and> raw_correction x = correction s"
    by blast+
next
  fix x :: raw_suggestion and p :: raw_position and a b xs ys
  assume "raw_position x = Some p" "raw_start p = Some a" "raw_end p = Some b"
    "a < 0 \<or> int (length text) < b \<or> b \<le> a"
  then have "\<not> keeps text (RawObject x)" by (auto simp: keeps_def)
  then show "suggestionsWithIds (xs @ RawObject x # ys) text now = suggestionsWithIds (xs @ ys) text now"
    by (rule suggestionsWithIds_remove)
next
  fix x :: raw_suggestion and p :: raw_position and a b xs ys
  assume "raw_position x = Some p" "raw_start p = Some a" "raw_end p = Some b"
    "a < 0 \<or> int (length text) < b \<or> b \<le> a"
  then have "validateSuggestion text (RawObject x) = Inr None"
    by (rule validateSuggestion_out_of_range)
  then show "checkText text (xs @ RawObject x # ys) now = checkText text (xs @ ys) now"
    by (rule checkText_remove)
next
  fix x :: raw_suggestion and p :: raw_position and a b
  assume x: "RawObject x \<in> set raws"
    and p: "raw_position x = Some p" "raw_start p = Some a" "raw_end p = Some b"
    and b: "0 \<le> a" "a < b" "b \<le> int (length text)"
    and f: "raw_original x \<notin> {JUndefined, JNull, JBoolean False, JNumber 0, JString []}"
      "raw_correction x \<notin> {JUndefined, JNull, JBoolean False, JNumber 0, JString []}"
      "raw_explanation x \<notin> {JUndefined, JNull, JBoolean False, JNumber 0, JString []}"
    and n: "raw_original x \<noteq> raw_correction x"
  from f have "truthy (raw_original x)" "truthy (raw_correction x)" "truthy (raw_explanation x)"
    by (simp_all add: truthy_iff)
  with p b n have "keeps text (RawObject x)"
    by (simp add: keeps_def strictEquals_def)
  from suggestionsWithIds_complete [OF x this, of now] p
  show "\<exists>s\<in>set (suggestionsWithIds raws text now).
               start (position s) = a \<and> end' (position s) = b \<and> original s = raw_original x"
    by auto
qed

theorem validator_rejects_out_of_range_spans_witness:
  "suggestionsWithIds
     [RawObject \<lparr>raw_type = JString ''spelling'',
        raw_position = Some \<lparr>raw_start = Some (- 1), raw_end = Some 3\<rparr>,
        raw_original = JString ''Teh'', raw_correction = JString ''The'',
        raw_explanation = JString ''typo''\<rparr>,
      RawObject \<lparr>raw_type = JString ''spelling'',
        raw_position = Some \<lparr>raw_start = Some 0, raw_end = Some 3\<rparr>,
        raw_original = JString ''Teh'', raw_correction = JString ''The'',
        raw_explanation = JString ''typo''\<rparr>,
      RawObject \<lparr>raw_type = JString ''spelling'',
        raw_position = Some \<lparr>raw_start = Some 4, raw_end = Some 99\<rparr>,
        raw_original = JString ''cat'', raw_correction = JString ''cot'',
        raw_explanation = JString ''bed''\<rparr>]
     ''Teh cat sat on the mat.'' (\<lambda>i. 0)
   = [\<lparr>id' = ''suggestion-0-0'', type' = JString ''spelling'', position = \<lparr>start = 0, end' = 3\<rparr>,
       original = JString ''Teh'', correction = JString ''The'', explanation = JString ''typo''\<rparr>]
   \<and> checkText ''Teh cat sat on the mat.''
     [RawObject \<lparr>raw_type = JString ''spelling'',
        raw_position = Some \<lparr>raw_start = Some (- 1), raw_end = Some 3\<rparr>,
        raw_original = JString ''Teh'', raw_correction = JString ''The'',
        raw_explanation = JString ''typo''\<rparr>,
      RawObject \<lparr>raw_type = JString ''spelling'',
        raw_position = Some \<lparr>raw_start = Some 0, raw_end = Some 3\<rparr>,
        raw_original = JString ''Teh'', raw_correction = JString ''The'',
        raw_explanation = JString ''typo''\<rparr>,
      RawObject \<lparr>raw_type = JString ''spelling'',
        raw_position = Some \<lparr>raw_start = Some 4, raw_end = Some 99\<rparr>,
        raw_original = JString ''cat'', raw_correction = JString ''cot'',
        raw_explanation = JString ''bed''\<rparr>]
     (\<lambda>i. 0)
   = [\<lparr>id' = ''suggestion-0-0'', type' = JString ''spelling'', position = \<lparr>start = 0, end' = 3\<rparr>,
       original = JString ''Teh'', correction = JString ''The'', explanation = JString ''typo''\<rparr>]
   \<and> (\<exists>s\<in>set (suggestionsWithIds
          [RawObject \<lparr>raw_type = JString ''spelling'',
             raw_position = Some \<lparr>raw_start = Some 0, raw_end = Some 3\<rparr>,
             raw_original = JString ''Teh'', raw_correction = JString ''The'',
             raw_explanation = JString ''typo''\<rparr>]
          ''Teh cat sat on the mat.'' (\<lambda>i. 0)).
        start (position s) = 0 \<and> end' (position s) = 3 \<and> original s = JString ''Teh'')"
proof -
  define low where "low = \<lparr>raw_type = JString ''spelling'',
        raw_position = Some \<lparr>raw_start = Some (- 1), raw_end = Some 3\<rparr>,
        raw_original = JString ''Teh'', raw_correction = JString ''The'',
        raw_explanation = JString ''typo''\<rparr>"
  define good where "good = \<lparr>raw_type = JString ''spelling'',
        raw_position = Some \<lparr>raw_start = Some 0, raw_end = Some 3\<rparr>,
        raw_original = JString ''Teh'', raw_correction = JString ''The'',
        raw_explanation = JString ''typo''\<rparr>"
  define high where "high = \<lparr>raw_type = JString ''spelling'',
        raw_position = Some \<lparr>raw_start = Some 4, raw_end = Some 99\<rparr>,
        raw_original = JString ''cat'', raw_correction = JString ''cot'',
        raw_explanation = JString ''bed''\<rparr>"
  define kept :: stored where "kept = \<lparr>id' = ''suggestion-0-0'', type' = JString ''spelling'',
       position = \<lparr>start = 0, end' = 3\<rparr>,
       original = JString ''Teh'', correction = JString ''The'', explanation = JString ''typo''\<rparr>"
  note w = validator_rejects_out_of_range_spans
    [of "[RawObject good]" "''Teh cat sat on the mat.''" "\<lambda>i. 0"]
  have l: "length ''Teh cat sat on the mat.'' = 23" by simp
  have c1: "suggestionsWithIds ([] @ RawObject low # [RawObject good, RawObject high])
        ''Teh cat sat on the mat.'' (\<lambda>i. 0)
      = suggestionsWithIds ([] @ [RawObject good, RawObject high]) ''Teh cat sat on the mat.'' (\<lambda>i. 0)"
    using w [THEN conjunct2, THEN conjunct1, THEN spec, THEN spec, THEN spec, THEN spec, THEN spec, THEN spec,
      of low "\<lparr>raw_start = Some (- 1), raw_end = Some 3\<rparr>" "- 1" 3 "[]" "[RawObject good, RawObject high]"]
    by (simp add: low_def)
  have c2: "suggestionsWithIds ([RawObject good] @ RawObject high # [])
        ''Teh cat sat on the mat.'' (\<lambda>i. 0)
      = suggestionsWithIds ([RawObject good] @ []) ''Teh cat sat on the mat.'' (\<lambda>i. 0)"
    using w [THEN conjunct2, THEN conjunct1, THEN spec, THEN spec, THEN spec, THEN spec, THEN spec, THEN spec,
      of high "\<lparr>raw_start = Some 4, raw_end = Some 99\<rparr>" 4 99 "[RawObject good]" "[]"]
    by (simp add: high_def)
  have d1: "checkText ''Teh cat sat on the mat.'' ([] @ RawObject low # [RawObject good, RawObject high]) (\<lambda>i. 0)
      = checkText ''Teh cat sat on the mat.'' ([] @ [RawObject good, RawObject high]) (\<lambda>i. 0)"
    using w [THEN conjunct2, THEN conjunct2, THEN conjunct1, THEN spec, THEN spec, THEN spec, THEN spec, THEN spec, THEN spec,
      of low "\<lparr>raw_start = Some (- 1), raw_end = Some 3\<rparr>" "- 1" 3 "[]" "[RawObject good, RawObject high]"]
    by (simp add: low_def)
  have d2: "checkText ''Teh cat sat on the mat.'' ([RawObject good] @ RawObject high # []) (\<lambda>i. 0)
      = checkText ''Teh cat sat on the mat.'' ([RawObject good] @ []) (\<lambda>i. 0)"
    using w [THEN conjunct2, THEN conjunct2, THEN conjunct1, THEN spec, THEN spec, THEN spec, THEN spec, THEN spec, THEN spec,
      of high "\<lparr>raw_start = Some 4, raw_end = Some 99\<rparr>" 4 99 "[RawObject good]" "[]"]
    by (simp add: high_def)
  have e1: "suggestionsWithIds [RawObject good] ''Teh cat sat on the mat.'' (\<lambda>i. 0) = [kept]"
    unfolding good_def kept_def by code_simp
  have e2: "checkText ''Teh cat sat on the mat.'' [RawObject good] (\<lambda>i. 0) = [kept]"
    unfolding good_def kept_def by code_simp
  have k: "\<exists>s\<in>set (suggestionsWithIds [RawObject good] ''Teh cat sat on the mat.'' (\<lambda>i. 0)).
        start (position s) = 0 \<and> end' (position s) = 3 \<and> original s = raw_original good"
    using w [THEN conjunct2, THEN conjunct2, THEN conjunct2, THEN spec, THEN spec, THEN spec, THEN spec,
      of good "\<lparr>raw_start = Some 0, raw_end = Some 3\<rparr>" 0 3]
    by (simp add: good_def)
  from c1 c2 d1 d2 e1 e2 k show ?thesis
    by (simp add: low_def good_def high_def kept_def)
qed

text \<open>
  Against C7 as stated: a suggestion that is well formed but for a start of \<open>-1\<close>, or an
  end of 99 in a text of 23 characters, is dropped, though its clamped span (\<open>[0, 3)\<close>,
  \<open>[4, 23)\<close>) has its start below its end.
\<close>

theorem validator_drops_negative_start_counterexample:
  "suggestionsWithIds
     [RawObject \<lparr>raw_type = JString ''spelling'',
        raw_position = Some \<lparr>raw_start = Some (- 1), raw_end = Some 3\<rparr>,
        raw_original = JString ''Teh'', raw_correction = JString ''The'',
        raw_explanation = JString ''typo''\<rparr>]
     ''Teh cat sat on the mat.'' (\<lambda>i. 0) = []
   \<and> max 0 (min (- 1) (int (length ''Teh cat sat on the mat.'')))
       < max 0 (min 3 (int (length ''Teh cat sat on the mat.'')))
   \<and> suggestionsWithIds
     [RawObject \<lparr>raw_type = JString ''spelling'',
        raw_position = Some \<lparr>raw_start = Some 4, raw_end = Some 99\<rparr>,
        raw_original = JString ''cat'', raw_correction = JString ''cot'',
        raw_explanation = JString ''bed''\<rparr>]
     ''Teh cat sat on the mat.'' (\<lambda>i. 0) = []
   \<and> max 0 (min 4 (int (length ''Teh cat sat on the mat.'')))
       < max 0 (min 99 (int (length ''Teh cat sat on the mat.'')))"
  by code_simp

text \<open>
  Claim C8. The comparison of \<open>original\<close> and \<open>correction\<close> after trimming and lower-casing
  is made by the check-text function, whose reply \<open>checkText\<close> filters again (there only
  with \<open>!==\<close>). In every suggestion of the function's reply, and so in every suggestion
  that \<open>checkText\<close> stores, \<open>original\<close> and \<open>correction\<close> are strings that differ after
  trimming and lower-casing. An element whose \<open>original\<close> and \<open>correction\<close> are strings
  equal after trimming and lower-casing can be taken out of what the language model
  returned without changing the reply or what \<open>checkText\<close> stores. An element that is
  well formed (a span with \<open>0 \<le> start < end \<le> length text\<close>; \<open>type\<close> and \<open>explanation\<close>
  none of \<open>undefined\<close>, \<open>null\<close>, \<open>false\<close>, \<open>0\<close> and the empty string; \<open>original\<close> and
  \<open>correction\<close> non-empty strings), whose \<open>original\<close> is the text at its span up to case and
  surrounding white space and differs from \<open>correction\<close> after trimming and lower-casing,
  is kept when it is alone, with its span.
\<close>

theorem validator_rejects_equal_after_trim_and_case:
  "(\<forall>s\<in>set (checkText text reply now). \<exists>orig corr.
        original s = JString orig \<and> correction s = JString corr
        \<and> trim (toLowerCase orig) \<noteq> trim (toLowerCase corr))
   \<and> (\<forall>x\<in>set (validatedSuggestions text reply). \<exists>orig corr.
        raw_original x = JString orig \<and> raw_correction x = JString corr
        \<and> trim (toLowerCase orig) \<noteq> trim (toLowerCase corr))
   \<and> (\<forall>x orig corr xs ys. raw_original x = JString orig \<longrightarrow> raw_correction x = JString corr
        \<longrightarrow> trim (toLowerCase orig) = trim (toLowerCase corr)
        \<longrightarrow> validatedSuggestions text (xs @ RawObject x # ys) = validatedSuggestions text (xs @ ys)
           \<and> checkText text (xs @ RawObject x # ys) now = checkText text (xs @ ys) now)
   \<and> (\<forall>x p a b orig corr. raw_position x = Some p \<longrightarrow> raw_start p = Some a \<longrightarrow> raw_end p = Some b
        \<longrightarrow> 0 \<le> a \<longrightarrow> a < b \<longrightarrow> b \<le> int (length text)
        \<longrightarrow> raw_type x \<notin> {JUndefined, JNull, JBoolean False, JNumber 0, JString []}
        \<longrightarrow> raw_explanation x \<notin> {JUndefined, JNull, JBoolean False, JNumber 0, JString []}
        \<longrightarrow> raw_original x = JString orig \<longrightarrow> raw_correction x = JString corr
        \<longrightarrow> orig \<noteq> [] \<longrightarrow> corr \<noteq> []
        \<longrightarrow> trim (toLowerCase (take (nat b - nat a) (drop (nat a) text))) = trim (toLowerCase orig)
        \<longrightarrow> trim (toLowerCase orig) \<noteq> trim (toLowerCase corr)
        \<longrightarrow> validatedSuggestions text [RawObject x] = [x]
           \<and> (10 \<le> length (trim text) \<longrightarrow> 3 \<le> length (words text)
              \<longrightarrow> checkText text [RawObject x] now
                  = [\<lparr>id' = ''suggestion-'' @ decimal (now 0) @ ''-'' @ decimal 0,
                      type' = raw_type x, position = \<lparr>start = a, end' = b\<rparr>,
                      original = JString orig, correction = JString corr,
                      explanation = raw_explanation x\<rparr>]))"
proof (intro conjI ballI allI impI)
  fix s assume "s \<in> set (checkText text reply now)"
  from checkText_sound [OF this]
  show "\<exists>orig corr. original s = JString orig \<and> correction s = JString corr
        \<and> trim (toLowerCase orig) \<noteq> trim (toLowerCase corr)" by blast
next
  fix x assume "x \<in> set (validatedSuggestions text reply)"
  from validatedSuggestions_sound [OF this] obtain r where "validateSuggestion text r = Inr (Some x)"
    by blast
  from validateSuggestion_SomeD [OF this]
  show "\<exists>orig corr. raw_original x = JString orig \<and> raw_correction x = JString corr
        \<and> trim (toLowerCase orig) \<noteq> trim (toLowerCase corr)" by blast
next
  fix x :: raw_suggestion and orig corr xs ys
  assume "raw_original x = JString orig" "raw_correction x = JString corr"
    "trim (toLowerCase orig) = trim (toLowerCase corr)"
  then have r: "validateSuggestion text (RawObject x) = Inr None"
    by (rule validateSuggestion_equal)
  from r show "validatedSuggestions text (xs @ RawObject x # ys) = validatedSuggestions text (xs @ ys)"
    by (rule validatedSuggestions_remove)
  from r show "checkText text (xs @ RawObject x # ys) now = checkText text (xs @ ys) now"
    by (rule checkText_remove)
next
  fix x :: raw_suggestion and p :: raw_position and a b orig corr
  assume p: "raw_position x = Some p" "raw_start p = Some a" "raw_end p = Some b"
    and b: "0 \<le> a" "a < b" "b \<le> int (length text)"
    and f: "raw_type x \<notin> {JUndefined, JNull, JBoolean False, JNumber 0, JString []}"
      "raw_explanation x \<notin> {JUndefined, JNull, JBoolean False, JNumber 0, JString []}"
    and o: "raw_original x = JString orig" "raw_correction x = JString corr"
    and ne: "orig \<noteq> []" "corr \<noteq> []"
    and at: "trim (toLowerCase (take (nat b - nat a) (drop (nat a) text))) = trim (toLowerCase orig)"
    and d: "trim (toLowerCase orig) \<noteq> trim (toLowerCase corr)"
  from f have t: "truthy (raw_type x)" "truthy (raw_explanation x)" by (simp_all add: truthy_iff)
  from b have "substring text a b = take (nat b - nat a) (drop (nat a) text)"
    by (intro substring_slice) simp_all
  with at have "trim (toLowerCase (substring text a b)) = trim (toLowerCase orig)" by simp
  from validateSuggestion_kept [OF p b t o ne this d]
  have v: "validateSuggestion text (RawObject x) = Inr (Some x)" .
  then show vs: "validatedSuggestions text [RawObject x] = [x]"
    by (simp add: validatedSuggestions_def)
  assume g: "10 \<le> length (trim text)" "3 \<le> length (words text)"
  from d have "orig \<noteq> corr" by auto
  with p b o ne t have k: "keeps text (RawObject x)"
    by (simp add: keeps_def truthy_def strictEquals_def)
  from g vs k withId_kept [OF p b, of now 0] o
  show "checkText text [RawObject x] now
                  = [\<lparr>id' = ''suggestion-'' @ decimal (now 0) @ ''-'' @ decimal 0,
                      type' = raw_type x, position = \<lparr>start = a, end' = b\<rparr>,
                      original = JString orig, correction = JString corr,
                      explanation = raw_explanation x\<rparr>]"
    by (simp add: checkText_def suggestionsWithIds_def)
qed

theorem validator_rejects_equal_after_trim_and_case_witness:
  "checkText ''Teh cat sat on the mat.''
     [RawObject \<lparr>raw_type = JString ''spelling'',
        raw_position = Some \<lparr>raw_start = Some 0, raw_end = Some 4\<rparr>,
        raw_original = JString ''Teh '', raw_correction = JString ''teh'',
        raw_explanation = JString ''case''\<rparr>]
     (\<lambda>i. 0) = []
   \<and> trim (toLowerCase ''Teh '') = ''teh''
   \<and> checkText ''Teh cat sat on the mat.''
     [RawObject \<lparr>raw_type = JString ''spelling'',
        raw_position = Some \<lparr>raw_start = Some 0, raw_end = Some 4\<rparr>,
        raw_original = JString ''Teh '', raw_correction = JString ''teh'',
        raw_explanation = JString ''case''\<rparr>,
      RawObject \<lparr>raw_type = JString ''spelling'',
        raw_position = Some \<lparr>raw_start = Some 0, raw_end = Some 3\<rparr>,
        raw_original = JString ''Teh'', raw_correction = JString ''The'',
        raw_explanation = JString ''typo''\<rparr>]
     (\<lambda>i. 0)
   = [\<lparr>id' = ''suggestion-0-0'', type' = JString ''spelling'', position = \<lparr>start = 0, end' = 3\<rparr>,
       original = JString ''Teh'', correction = JString ''The'', explanation = JString ''typo''\<rparr>]
   \<and> trim (toLowerCase ''Teh'') \<noteq> trim (toLowerCase ''The'')"
proof -
  define same where "same = \<lparr>raw_type = JString ''spelling'',
        raw_position = Some \<lparr>raw_start = Some 0, raw_end = Some 4\<rparr>,
        raw_original = JString ''Teh '', raw_correction = JString ''teh'',
        raw_explanation = JString ''case''\<rparr>"
  define good where "good = \<lparr>raw_type = JString ''spelling'',
        raw_position = Some \<lparr>raw_start = Some 0, raw_end = Some 3\<rparr>,
        raw_original = JString ''Teh'', raw_correction = JString ''The'',
        raw_explanation = JString ''typo''\<rparr>"
  define kept :: stored where "kept = \<lparr>id' = ''suggestion-0-0'', type' = JString ''spelling'',
       position = \<lparr>start = 0, end' = 3\<rparr>,
       original = JString ''Teh'', correction = JString ''The'', explanation = JString ''typo''\<rparr>"
  note w = validator_rejects_equal_after_trim_and_case
    [of "''Teh cat sat on the mat.''" "[RawObject same, RawObject good]" "\<lambda>i. 0"]
  have t1: "trim (toLowerCase ''Teh '') = ''teh''" by code_simp
  have t2: "trim (toLowerCase ''teh'') = ''teh''" by code_simp
  have t3: "trim (toLowerCase (take (nat 3 - nat 0) (drop (nat 0) ''Teh cat sat on the mat.'')))
      = trim (toLowerCase ''Teh'')" by code_simp
  have t4: "trim (toLowerCase ''Teh'') \<noteq> trim (toLowerCase ''The'')" by code_simp
  have g: "10 \<le> length (trim ''Teh cat sat on the mat.'')" "3 \<le> length (words ''Teh cat sat on the mat.'')"
    by code_simp+
  have dec: "''suggestion-'' @ decimal 0 @ ''-'' @ decimal 0 = ''suggestion-0-0''" by code_simp
  note rm = w [THEN conjunct2, THEN conjunct2, THEN conjunct1, THEN spec, THEN spec, THEN spec,
      THEN spec, THEN spec, of same "''Teh ''" "''teh''"]
  have c1: "checkText ''Teh cat sat on the mat.'' ([] @ RawObject same # []) (\<lambda>i. 0)
      = checkText ''Teh cat sat on the mat.'' ([] @ []) (\<lambda>i. 0)"
    using rm [of "[]" "[]"] t1 t2 by (simp add: same_def)
  have c2: "checkText ''Teh cat sat on the mat.'' ([] @ RawObject same # [RawObject good]) (\<lambda>i. 0)
      = checkText ''Teh cat sat on the mat.'' ([] @ [RawObject good]) (\<lambda>i. 0)"
    using rm [of "[]" "[RawObject good]"] t1 t2 by (simp add: same_def)
  have e0: "checkText ''Teh cat sat on the mat.'' [] (\<lambda>i. 0) = []" by code_simp
  have e1: "checkText ''Teh cat sat on the mat.'' [RawObject good] (\<lambda>i. 0) = [kept]"
    using w [THEN conjunct2, THEN conjunct2, THEN conjunct2, THEN spec, THEN spec, THEN spec,
      THEN spec, THEN spec, THEN spec,
      of good "\<lparr>raw_start = Some 0, raw_end = Some 3\<rparr>" 0 3 "''Teh''" "''The''"] t3 t4 g dec
    by (simp add: good_def kept_def)
  have "kept \<in> set (checkText ''Teh cat sat on the mat.'' [RawObject same, RawObject good] (\<lambda>i. 0))"
    using c2 e1 by simp
  from w [THEN conjunct1, THEN bspec, OF this]
  have s: "trim (toLowerCase ''Teh'') \<noteq> trim (toLowerCase ''The'')"
    by (simp add: kept_def)
  from c1 c2 e0 e1 t1 s show ?thesis
    by (simp add: same_def good_def kept_def)
qed

section \<open>Where the locator never returns\<close>

text \<open>
  \<open>findWordBoundaries\<close> trims the word before it builds the pattern. For a word of white
  space only the pattern is \<open>\b\b\<close>, which matches the empty string at every word
  boundary; \<open>exec\<close> then finds the first such match again and again. The call returns
  (the empty list) only when the text has no word character.
\<close>

lemma findWordBoundaries_None_iff:
  "findWordBoundaries t w h = None
   \<longleftrightarrow> trim (toLowerCase w) = [] \<and> (\<exists>c\<in>set t. isWordChar c)"
proof (cases "trim (toLowerCase w) = []")
  case True
  then show ?thesis by (simp add: findWordBoundaries_empty_word)
next
  case False
  from findWordBoundaries_total [OF False, of t h] False show ?thesis by auto
qed

lemma findWordBoundaries_Nil_iff:
  "findWordBoundaries t w h = Some (Inr [])
   \<longleftrightarrow> (\<forall>i\<le>length t. matchAtoms (wordRegex (trim (toLowerCase w))) t i = None)"
proof
  assume "findWordBoundaries t w h = Some (Inr [])"
  from findWordBoundaries_SomeD [OF this]
  have "regexExec (wordRegex (trim (toLowerCase w))) t 0 = None" by simp
  then show "\<forall>i\<le>length t. matchAtoms (wordRegex (trim (toLowerCase w))) t i = None"
    using regexExec_NoneD by blast
next
  assume "\<forall>i\<le>length t. matchAtoms (wordRegex (trim (toLowerCase w))) t i = None"
  then have "regexExec (wordRegex (trim (toLowerCase w))) t 0 = None"
    by (intro regexExec_NoneI) simp
  then have "matchesFrom (wordRegex (trim (toLowerCase w))) t 0 []" by simp
  from execLoop_matchesFrom [OF this, of "[]"] show "findWordBoundaries t w h = Some (Inr [])"
    by (simp add: findWordBoundaries_eq)
qed

lemma reconcile_None_iff:
  "reconcile t s = None
   \<longleftrightarrow> substring t (start (position s)) (end' (position s)) \<noteq> original s
       \<and> trim (toLowerCase (substring t (start (position s)) (end' (position s))))
           \<noteq> trim (toLowerCase (original s))
       \<and> trim (toLowerCase (original s)) = [] \<and> (\<exists>c\<in>set t. isWordChar c)"
proof (cases "substring t (start (position s)) (end' (position s)) = original s
    \<or> trim (toLowerCase (substring t (start (position s)) (end' (position s))))
        = trim (toLowerCase (original s))")
  case True
  then show ?thesis by (auto simp: reconcile_exact reconcile_fuzzy)
next
  case False
  then have ne: "substring t (start (position s)) (end' (position s)) \<noteq> original s"
    and nf: "trim (toLowerCase (substring t (start (position s)) (end' (position s))))
        \<noteq> trim (toLowerCase (original s))" by simp_all
  have "reconcile t s = None \<longleftrightarrow> findWordBoundaries t (original s) 0 = None"
    by (simp add: reconcile_relocate [OF ne nf] split: option.splits sum.splits list.splits)
  with ne nf show ?thesis by (simp add: findWordBoundaries_None_iff)
qed

lemma handleAcceptSuggestion_None_iff:
  "handleAcceptSuggestion ed s = None
   \<longleftrightarrow> 0 \<le> start (position s) \<and> start (position s) < end' (position s)
       \<and> end' (position s) \<le> int (length (content ed))
       \<and> reconcile (content ed) s = None"
  by (auto simp: handleAcceptSuggestion_def andThen_def Let_def split: option.splits sum.splits)

lemma handleAcceptAllSuggestions_None_iff:
  "handleAcceptAllSuggestions ed = None
   \<longleftrightarrow> suggestions ed \<noteq> []
       \<and> applyEach (sortedSuggestions (suggestions ed)) (content ed, 0) = None"
  by (auto simp: handleAcceptAllSuggestions_def andThen_def split: option.splits sum.splits)

text \<open>
  Claim C1 says that for every text and suggestion reconciliation returns the nearest
  match when the first two tiers fail and a match exists. It does so whenever the trimmed
  \<open>original\<close> is not empty (\<open>reconcile_three_tiers\<close> with \<open>reconcile_returns\<close>), and not
  for an \<open>original\<close> of white space only. The text is \<open>the cat sat on the mat\<close>, and the
  language model returns two suggestions: \<open>cat\<close> to \<open>kitten\<close> at \<open>[4, 7)\<close>, and a comma
  after \<open>sat\<close>, that is the space at \<open>[11, 12)\<close> to a comma and a space. The check-text
  function and \<open>checkText\<close> keep both. Accepting the first gives
  \<open>the kitten sat on the mat\<close> and leaves the second in the list, with its span, where the
  text is now \<open>s\<close>: it is \<open>original\<close> neither exactly nor up to case and white space. The
  space has moved to \<open>[10, 11)\<close>, between two words, where the pattern of \<open>original\<close>
  itself matches. The pattern of the trimmed \<open>original\<close>, which is what the locator
  searches, matches the empty string at index 0, and the locator, reconciliation and
  \<open>handleAcceptSuggestion\<close> never return.
\<close>

theorem reconcile_whitespace_original_never_returns:
  "map asSuggestion
     (checkText ''the cat sat on the mat''
        [RawObject \<lparr>raw_type = JString ''style'',
           raw_position = Some \<lparr>raw_start = Some 4, raw_end = Some 7\<rparr>,
           raw_original = JString ''cat'', raw_correction = JString ''kitten'',
           raw_explanation = JString ''age''\<rparr>,
         RawObject \<lparr>raw_type = JString ''punctuation'',
           raw_position = Some \<lparr>raw_start = Some 11, raw_end = Some 12\<rparr>,
           raw_original = JString '' '', raw_correction = JString '', '',
           raw_explanation = JString ''comma''\<rparr>]
        (\<lambda>i. 0))
   = [Some \<lparr>id' = ''suggestion-0-0'', type' = JString ''style'', position = \<lparr>start = 4, end' = 7\<rparr>,
             original = ''cat'', correction = ''kitten'', explanation = JString ''age''\<rparr>,
      Some \<lparr>id' = ''suggestion-0-1'', type' = JString ''punctuation'',
             position = \<lparr>start = 11, end' = 12\<rparr>,
             original = '' '', correction = '', '', explanation = JString ''comma''\<rparr>]
   \<and> handleAcceptSuggestion
        \<lparr>content = ''the cat sat on the mat'',
         suggestions =
           [\<lparr>id' = ''suggestion-0-0'', type' = JString ''style'', position = \<lparr>start = 4, end' = 7\<rparr>,
              original = ''cat'', correction = ''kitten'', explanation = JString ''age''\<rparr>,
            \<lparr>id' = ''suggestion-0-1'', type' = JString ''punctuation'',
              position = \<lparr>start = 11, end' = 12\<rparr>,
              original = '' '', correction = '', '', explanation = JString ''comma''\<rparr>]\<rparr>
        \<lparr>id' = ''suggestion-0-0'', type' = JString ''style'', position = \<lparr>start = 4, end' = 7\<rparr>,
          original = ''cat'', correction = ''kitten'', explanation = JString ''age''\<rparr>
       = Some (Inr (SuggestionApplied 10,
           \<lparr>content = ''the kitten sat on the mat'',
            suggestions =
              [\<lparr>id' = ''suggestion-0-1'', type' = JString ''punctuation'',
                 position = \<lparr>start = 11, end' = 12\<rparr>,
                 original = '' '', correction = '', '', explanation = JString ''comma''\<rparr>]\<rparr>))
   \<and> substring ''the kitten sat on the mat'' 11 12 = ''s''
   \<and> trim (toLowerCase (substring ''the kitten sat on the mat'' 11 12)) \<noteq> trim (toLowerCase '' '')
   \<and> matchAtoms (wordRegex '' '') ''the kitten sat on the mat'' 10 = Some 11
   \<and> matchAtoms (wordRegex (trim (toLowerCase '' ''))) ''the kitten sat on the mat'' 0 = Some 0
   \<and> findWordBoundaries ''the kitten sat on the mat'' '' '' 11 = None
   \<and> reconcile ''the kitten sat on the mat''
        \<lparr>id' = ''suggestion-0-1'', type' = JString ''punctuation'',
          position = \<lparr>start = 11, end' = 12\<rparr>,
          original = '' '', correction = '', '', explanation = JString ''comma''\<rparr>
       = None
   \<and> handleAcceptSuggestion
        \<lparr>content = ''the kitten sat on the mat'',
         suggestions =
           [\<lparr>id' = ''suggestion-0-1'', type' = JString ''punctuation'',
              position = \<lparr>start = 11, end' = 12\<rparr>,
              original = '' '', correction = '', '', explanation = JString ''comma''\<rparr>]\<rparr>
        \<lparr>id' = ''suggestion-0-1'', type' = JString ''punctuation'',
          position = \<lparr>start = 11, end' = 12\<rparr>,
          original = '' '', correction = '', '', explanation = JString ''comma''\<rparr>
       = None"
proof -
  define s1 :: suggestion where "s1 = \<lparr>id' = ''suggestion-0-0'', type' = JString ''style'',
    position = \<lparr>start = 4, end' = 7\<rparr>,
    original = ''cat'', correction = ''kitten'', explanation = JString ''age''\<rparr>"
  define s2 :: suggestion where "s2 = \<lparr>id' = ''suggestion-0-1'', type' = JString ''punctuation'',
    position = \<lparr>start = 11, end' = 12\<rparr>,
    original = '' '', correction = '', '', explanation = JString ''comma''\<rparr>"
  have v: "map asSuggestion
     (checkText ''the cat sat on the mat''
        [RawObject \<lparr>raw_type = JString ''style'',
           raw_position = Some \<lparr>raw_start = Some 4, raw_end = Some 7\<rparr>,
           raw_original = JString ''cat'', raw_correction = JString ''kitten'',
           raw_explanation = JString ''age''\<rparr>,
         RawObject \<lparr>raw_type = JString ''punctuation'',
           raw_position = Some \<lparr>raw_start = Some 11, raw_end = Some 12\<rparr>,
           raw_original = JString '' '', raw_correction = JString '', '',
           raw_explanation = JString ''comma''\<rparr>]
        (\<lambda>i. 0)) = [Some s1, Some s2]"
    unfolding s1_def s2_def by code_simp
  have h1: "handleAcceptSuggestion \<lparr>content = ''the cat sat on the mat'', suggestions = [s1, s2]\<rparr> s1
      = Some (Inr (SuggestionApplied 10,
           \<lparr>content = ''the kitten sat on the mat'', suggestions = [s2]\<rparr>))"
    unfolding s1_def s2_def by code_simp
  have a: "substring ''the kitten sat on the mat'' 11 12 = ''s''" by code_simp
  have b: "trim (toLowerCase (substring ''the kitten sat on the mat'' 11 12)) \<noteq> trim (toLowerCase '' '')"
    by code_simp
  have m1: "matchAtoms (wordRegex '' '') ''the kitten sat on the mat'' 10 = Some 11" by code_simp
  have m0: "matchAtoms (wordRegex (trim (toLowerCase '' ''))) ''the kitten sat on the mat'' 0 = Some 0"
    by code_simp
  have e: "trim (toLowerCase '' '') = []" by code_simp
  have w: "\<exists>c\<in>set ''the kitten sat on the mat''. isWordChar c" by (simp add: isWordChar_def)
  from e w have f: "findWordBoundaries ''the kitten sat on the mat'' '' '' 11 = None"
    by (simp add: findWordBoundaries_None_iff)
  from a b e w have r: "reconcile ''the kitten sat on the mat'' s2 = None"
    by (simp add: reconcile_None_iff s2_def)
  then have h2: "handleAcceptSuggestion \<lparr>content = ''the kitten sat on the mat'', suggestions = [s2]\<rparr> s2 = None"
    by (simp add: handleAcceptSuggestion_None_iff s2_def)
  from v h1 a b m1 m0 f r h2 show ?thesis by (simp add: s1_def s2_def)
qed

text \<open>
  Claim C3 says that apply-all applies the suggestions from right to left and skips
  those it cannot locate. \<open>handleAcceptAllSuggestions\<close> does so, with the locator as its
  only means (\<open>handleAcceptAllSuggestions_returns\<close>, \<open>handleAcceptAllSuggestions_example\<close>),
  unless an \<open>original\<close> is white space only. The text is
  \<open>Hello world this is a test sentence.\<close>, and the language model returns one suggestion,
  a comma after \<open>Hello\<close>: the space at \<open>[5, 6)\<close> to a comma and a space. The check-text
  function and \<open>checkText\<close> keep it. On the unchanged text, where the span holds
  \<open>original\<close> exactly, \<open>handleAcceptSuggestion\<close> applies it, and
  \<open>handleAcceptAllSuggestions\<close> never returns: its loop calls the locator, whose pattern
  for the trimmed \<open>original\<close> matches the empty string at index 0.
\<close>

theorem applyAll_whitespace_original_never_returns:
  "map asSuggestion
     (checkText ''Hello world this is a test sentence.''
        [RawObject \<lparr>raw_type = JString ''punctuation'',
           raw_position = Some \<lparr>raw_start = Some 5, raw_end = Some 6\<rparr>,
           raw_original = JString '' '', raw_correction = JString '', '',
           raw_explanation = JString ''comma''\<rparr>]
        (\<lambda>i. 0))
   = [Some \<lparr>id' = ''suggestion-0-0'', type' = JString ''punctuation'',
             position = \<lparr>start = 5, end' = 6\<rparr>,
             original = '' '', correction = '', '', explanation = JString ''comma''\<rparr>]
   \<and> substring ''Hello world this is a test sentence.'' 5 6 = '' ''
   \<and> handleAcceptSuggestion
        \<lparr>content = ''Hello world this is a test sentence.'',
         suggestions =
           [\<lparr>id' = ''suggestion-0-0'', type' = JString ''punctuation'',
              position = \<lparr>start = 5, end' = 6\<rparr>,
              original = '' '', correction = '', '', explanation = JString ''comma''\<rparr>]\<rparr>
        \<lparr>id' = ''suggestion-0-0'', type' = JString ''punctuation'',
          position = \<lparr>start = 5, end' = 6\<rparr>,
          original = '' '', correction = '', '', explanation = JString ''comma''\<rparr>
       = Some (Inr (SuggestionApplied 7,
           \<lparr>content = ''Hello, world this is a test sentence.'', suggestions = []\<rparr>))
   \<and> matchAtoms (wordRegex (trim (toLowerCase '' ''))) ''Hello world this is a test sentence.'' 0
       = Some 0
   \<and> findWordBoundaries ''Hello world this is a test sentence.'' '' '' 0 = None
   \<and> handleAcceptAllSuggestions
        \<lparr>content = ''Hello world this is a test sentence.'',
         suggestions =
           [\<lparr>id' = ''suggestion-0-0'', type' = JString ''punctuation'',
              position = \<lparr>start = 5, end' = 6\<rparr>,
              original = '' '', correction = '', '', explanation = JString ''comma''\<rparr>]\<rparr>
       = None"
proof -
  define s :: suggestion where "s = \<lparr>id' = ''suggestion-0-0'', type' = JString ''punctuation'',
    position = \<lparr>start = 5, end' = 6\<rparr>,
    original = '' '', correction = '', '', explanation = JString ''comma''\<rparr>"
  have v: "map asSuggestion
     (checkText ''Hello world this is a test sentence.''
        [RawObject \<lparr>raw_type = JString ''punctuation'',
           raw_position = Some \<lparr>raw_start = Some 5, raw_end = Some 6\<rparr>,
           raw_original = JString '' '', raw_correction = JString '', '',
           raw_explanation = JString ''comma''\<rparr>]
        (\<lambda>i. 0)) = [Some s]"
    unfolding s_def by code_simp
  have a: "substring ''Hello world this is a test sentence.'' 5 6 = '' ''" by code_simp
  have h: "handleAcceptSuggestion
        \<lparr>content = ''Hello world this is a test sentence.'', suggestions = [s]\<rparr> s
       = Some (Inr (SuggestionApplied 7,
           \<lparr>content = ''Hello, world this is a test sentence.'', suggestions = []\<rparr>))"
    unfolding s_def by code_simp
  have m0: "matchAtoms (wordRegex (trim (toLowerCase '' ''))) ''Hello world this is a test sentence.'' 0
       = Some 0" by code_simp
  have e: "trim (toLowerCase '' '') = []" by code_simp
  have w: "\<exists>c\<in>set ''Hello world this is a test sentence.''. isWordChar c"
    by (simp add: isWordChar_def)
  from e w have f: "findWordBoundaries ''Hello world this is a test sentence.'' '' '' 0 = None"
    by (simp add: findWordBoundaries_None_iff)
  have so: "sortedSuggestions [s] = [s]" by (simp add: sortedSuggestions_def)
  from f have "applyEach [s] (''Hello world this is a test sentence.'', 0) = None"
    by (intro applyEach_never_returns [of _ _ 0]) (simp add: s_def)
  with so have g: "handleAcceptAllSuggestions
        \<lparr>content = ''Hello world this is a test sentence.'', suggestions = [s]\<rparr> = None"
    by (simp add: handleAcceptAllSuggestions_None_iff)
  from v a h m0 f g show ?thesis by (simp add: s_def)
qed

text \<open>
  Claim C4 says that a suggestion whose \<open>original\<close> is neither at its span nor anywhere
  else in the text ends in the error toast with the text as it was, as a span out of
  bounds does, and that the handler never throws. \<open>handleAcceptSuggestion\<close> does so
  (\<open>handleAcceptSuggestion_out_of_bounds\<close>, \<open>handleAcceptSuggestion_no_match\<close>,
  \<open>handleAcceptSuggestion_returns\<close>, \<open>handleAcceptSuggestion_never_throws\<close>) unless
  \<open>original\<close> is white space only. The text is \<open>a cat  sat on the mat\<close>, with two spaces
  after \<open>cat\<close>, and the language model returns two suggestions for them: \<open>cat  sat\<close> to
  \<open>cat sat\<close> at \<open>[2, 10)\<close>, and the two spaces at \<open>[5, 7)\<close> to a comma and a space. The
  check-text function and \<open>checkText\<close> keep both. Accepting the first gives
  \<open>a cat sat on the mat\<close> and leaves the second in the list. Its \<open>original\<close>, two spaces, is
  now nowhere in the text, and the text at its span is a space and \<open>s\<close>; accepting it
  never returns.
\<close>

theorem applyOne_missing_original_never_returns:
  "map asSuggestion
     (checkText ''a cat  sat on the mat''
        [RawObject \<lparr>raw_type = JString ''style'',
           raw_position = Some \<lparr>raw_start = Some 2, raw_end = Some 10\<rparr>,
           raw_original = JString ''cat  sat'', raw_correction = JString ''cat sat'',
           raw_explanation = JString ''space''\<rparr>,
         RawObject \<lparr>raw_type = JString ''punctuation'',
           raw_position = Some \<lparr>raw_start = Some 5, raw_end = Some 7\<rparr>,
           raw_original = JString ''  '', raw_correction = JString '', '',
           raw_explanation = JString ''comma''\<rparr>]
        (\<lambda>i. 0))
   = [Some \<lparr>id' = ''suggestion-0-0'', type' = JString ''style'', position = \<lparr>start = 2, end' = 10\<rparr>,
             original = ''cat  sat'', correction = ''cat sat'', explanation = JString ''space''\<rparr>,
      Some \<lparr>id' = ''suggestion-0-1'', type' = JString ''punctuation'',
             position = \<lparr>start = 5, end' = 7\<rparr>,
             original = ''  '', correction = '', '', explanation = JString ''comma''\<rparr>]
   \<and> handleAcceptSuggestion
        \<lparr>content = ''a cat  sat on the mat'',
         suggestions =
           [\<lparr>id' = ''suggestion-0-0'', type' = JString ''style'', position = \<lparr>start = 2, end' = 10\<rparr>,
              original = ''cat  sat'', correction = ''cat sat'', explanation = JString ''space''\<rparr>,
            \<lparr>id' = ''suggestion-0-1'', type' = JString ''punctuation'',
              position = \<lparr>start = 5, end' = 7\<rparr>,
              original = ''  '', correction = '', '', explanation = JString ''comma''\<rparr>]\<rparr>
        \<lparr>id' = ''suggestion-0-0'', type' = JString ''style'', position = \<lparr>start = 2, end' = 10\<rparr>,
          original = ''cat  sat'', correction = ''cat sat'', explanation = JString ''space''\<rparr>
       = Some (Inr (SuggestionApplied 9,
           \<lparr>content = ''a cat sat on the mat'',
            suggestions =
              [\<lparr>id' = ''suggestion-0-1'', type' = JString ''punctuation'',
                 position = \<lparr>start = 5, end' = 7\<rparr>,
                 original = ''  '', correction = '', '', explanation = JString ''comma''\<rparr>]\<rparr>))
   \<and> substring ''a cat sat on the mat'' 5 7 = '' s''
   \<and> trim (toLowerCase (substring ''a cat sat on the mat'' 5 7)) \<noteq> trim (toLowerCase ''  '')
   \<and> indexOf ''a cat sat on the mat'' ''  '' = None
   \<and> handleAcceptSuggestion
        \<lparr>content = ''a cat sat on the mat'',
         suggestions =
           [\<lparr>id' = ''suggestion-0-1'', type' = JString ''punctuation'',
              position = \<lparr>start = 5, end' = 7\<rparr>,
              original = ''  '', correction = '', '', explanation = JString ''comma''\<rparr>]\<rparr>
        \<lparr>id' = ''suggestion-0-1'', type' = JString ''punctuation'',
          position = \<lparr>start = 5, end' = 7\<rparr>,
          original = ''  '', correction = '', '', explanation = JString ''comma''\<rparr>
       = None"
proof -
  define s1 :: suggestion where "s1 = \<lparr>id' = ''suggestion-0-0'', type' = JString ''style'',
    position = \<lparr>start = 2, end' = 10\<rparr>,
    original = ''cat  sat'', correction = ''cat sat'', explanation = JString ''space''\<rparr>"
  define s2 :: suggestion where "s2 = \<lparr>id' = ''suggestion-0-1'', type' = JString ''punctuation'',
    position = \<lparr>start = 5, end' = 7\<rparr>,
    original = ''  '', correction = '', '', explanation = JString ''comma''\<rparr>"
  have v: "map asSuggestion
     (checkText ''a cat  sat on the mat''
        [RawObject \<lparr>raw_type = JString ''style'',
           raw_position = Some \<lparr>raw_start = Some 2, raw_end = Some 10\<rparr>,
           raw_original = JString ''cat  sat'', raw_correction = JString ''cat sat'',
           raw_explanation = JString ''space''\<rparr>,
         RawObject \<lparr>raw_type = JString ''punctuation'',
           raw_position = Some \<lparr>raw_start = Some 5, raw_end = Some 7\<rparr>,
           raw_original = JString ''  '', raw_correction = JString '', '',
           raw_explanation = JString ''comma''\<rparr>]
        (\<lambda>i. 0)) = [Some s1, Some s2]"
    unfolding s1_def s2_def by code_simp
  have h1: "handleAcceptSuggestion \<lparr>content = ''a cat  sat on the mat'', suggestions = [s1, s2]\<rparr> s1
      = Some (Inr (SuggestionApplied 9,
           \<lparr>content = ''a cat sat on the mat'', suggestions = [s2]\<rparr>))"
    unfolding s1_def s2_def by code_simp
  have a: "substring ''a cat sat on the mat'' 5 7 = '' s''" by code_simp
  have b: "trim (toLowerCase (substring ''a cat sat on the mat'' 5 7)) \<noteq> trim (toLowerCase ''  '')"
    by code_simp
  have i: "indexOf ''a cat sat on the mat'' ''  '' = None" by code_simp
  have e: "trim (toLowerCase ''  '') = []" by code_simp
  have w: "\<exists>c\<in>set ''a cat sat on the mat''. isWordChar c" by (simp add: isWordChar_def)
  from a b e w have r: "reconcile ''a cat sat on the mat'' s2 = None"
    by (simp add: reconcile_None_iff s2_def)
  then have h2: "handleAcceptSuggestion \<lparr>content = ''a cat sat on the mat'', suggestions = [s2]\<rparr> s2 = None"
    by (simp add: handleAcceptSuggestion_None_iff s2_def)
  from v h1 a b i h2 show ?thesis by (simp add: s1_def s2_def)
qed

end
